theory Spec2Isabelle
  imports Main "HOL-Library.Multiset"
begin

section \<open>Exceptions\<close>

text \<open>
  The C++ exceptions the sources throw or catch, as values. \<open>SQLException\<close> is the
  driver's \<^verbatim>\<open>sql::SQLException\<close>; it derives from \<^verbatim>\<open>std::runtime_error\<close>, so a
  handler \<^verbatim>\<open>catch (sql::SQLException &e)\<close> matches \<open>SQLException\<close> only and lets a plain
  \<^verbatim>\<open>std::runtime_error\<close> (\<open>Runtime_error\<close>, with its message) pass.
  \<open>Undefined_behaviour\<close> is not an exception: it marks a step that has left defined
  C++ (a null or dangling pointer is dereferenced, an object is deleted twice, a signed
  counter overflows).
\<close>

datatype exn =
    SQLException
  | Runtime_error string
  | Invalid_argument string
  | Out_of_range string
  | Undefined_behaviour

section \<open>Node.h: the list node and the node store\<close>

text \<open>
  \<^verbatim>\<open>template <typename T> struct Node { T data; Node<T>* next; }\<close>.
  A node pointer is \<open>None\<close> (\<^verbatim>\<open>nullptr\<close>) or \<open>Some a\<close> for an address \<open>a\<close>.
  Every container owns its nodes, so each carries its own store (address to node).
  \<^verbatim>\<open>new\<close> hands out an address that is not in use: the model takes the next address
  never handed out before. \<^verbatim>\<open>delete\<close> removes the address from the store.
\<close>

record 'a node =
  data :: 'a
  next_node :: "nat option"

type_synonym 'a heap = "nat \<Rightarrow> 'a node option"

definition Node :: "'a \<Rightarrow> 'a node" where
  "Node val = \<lparr>data = val, next_node = None\<rparr>"

section \<open>Stack.h: the templated LIFO stack\<close>

text \<open>
  \<open>s_size\<close> follows the stack's counter \<^verbatim>\<open>_size\<close>; only \<^verbatim>\<open>size()\<close> reads it, and
  \<^verbatim>\<open>push\<close>, \<^verbatim>\<open>pop\<close> and \<^verbatim>\<open>peek\<close> do not depend on it.
\<close>

record 'a stack =
  s_nodes :: "'a heap"
  s_alloc :: nat
  s_top :: "nat option"
  s_size :: int

definition Stack :: "'a stack" where
  "Stack = \<lparr>s_nodes = Map.empty, s_alloc = 0, s_top = None, s_size = 0\<rparr>"

definition stack_isEmpty :: "'a stack \<Rightarrow> bool" where
  "stack_isEmpty s = (s_top s = None)"

definition stack_size :: "'a stack \<Rightarrow> int" where
  "stack_size s = s_size s"

definition push :: "'a \<Rightarrow> 'a stack \<Rightarrow> 'a stack" where
  "push x s =
     (let newNode = s_alloc s in
      s\<lparr>s_nodes := (s_nodes s)(newNode \<mapsto> (Node x)\<lparr>next_node := s_top s\<rparr>),
        s_alloc := newNode + 1,
        s_top := Some newNode,
        s_size := s_size s + 1\<rparr>)"

definition pop :: "'a stack \<Rightarrow> exn + ('a \<times> 'a stack)" where
  "pop s =
     (if stack_isEmpty s then Inl (Runtime_error ''Stack is empty'')
      else case s_top s of
        None \<Rightarrow> Inl Undefined_behaviour
      | Some temp \<Rightarrow>
          (case s_nodes s temp of
            None \<Rightarrow> Inl Undefined_behaviour
          | Some n \<Rightarrow>
              Inr (data n,
                   s\<lparr>s_nodes := (s_nodes s)(temp := None),
                     s_top := next_node n,
                     s_size := s_size s - 1\<rparr>)))"

definition peek :: "'a stack \<Rightarrow> exn + 'a" where
  "peek s =
     (if stack_isEmpty s then Inl (Runtime_error ''Stack is empty'')
      else case s_top s of
        None \<Rightarrow> Inl Undefined_behaviour
      | Some t \<Rightarrow>
          (case s_nodes s t of
            None \<Rightarrow> Inl Undefined_behaviour
          | Some n \<Rightarrow> Inr (data n)))"

section \<open>Queue.h: the templated FIFO queue\<close>

text \<open>
  The counter \<^verbatim>\<open>_size\<close> of the queue is a C++ \<^verbatim>\<open>int\<close> (32 bits): \<^verbatim>\<open>_size++\<close> at
  \<^verbatim>\<open>INT_MAX\<close> and \<^verbatim>\<open>_size--\<close> at \<^verbatim>\<open>INT_MIN\<close> overflow a signed integer, which is
  undefined. \<open>q_size\<close> holds the value of the counter, always a value of \<^verbatim>\<open>int\<close>.
\<close>

definition INT_MAX :: int where
  "INT_MAX = 2147483647"

definition INT_MIN :: int where
  "INT_MIN = - 2147483648"

definition increment :: "int \<Rightarrow> exn + int" where
  "increment n = (if n = INT_MAX then Inl Undefined_behaviour else Inr (n + 1))"

definition decrement :: "int \<Rightarrow> exn + int" where
  "decrement n = (if n = INT_MIN then Inl Undefined_behaviour else Inr (n - 1))"

record 'a queue =
  q_nodes :: "'a heap"
  q_alloc :: nat
  q_head :: "nat option"
  q_tail :: "nat option"
  q_size :: int

definition Queue :: "'a queue" where
  "Queue = \<lparr>q_nodes = Map.empty, q_alloc = 0, q_head = None, q_tail = None, q_size = 0\<rparr>"

definition queue_isEmpty :: "'a queue \<Rightarrow> bool" where
  "queue_isEmpty q = (q_head q = None)"

definition queue_size :: "'a queue \<Rightarrow> int" where
  "queue_size q = q_size q"

definition enqueue :: "'a \<Rightarrow> 'a queue \<Rightarrow> exn + 'a queue" where
  "enqueue x q =
     (let newNode = q_alloc q;
          h = (q_nodes q)(newNode \<mapsto> Node x)
      in if queue_isEmpty q then
           (case increment (q_size q) of
             Inl e \<Rightarrow> Inl e
           | Inr sz \<Rightarrow>
               Inr (q\<lparr>q_nodes := h, q_alloc := newNode + 1,
                      q_head := Some newNode, q_tail := Some newNode,
                      q_size := sz\<rparr>))
         else case q_tail q of
           None \<Rightarrow> Inl Undefined_behaviour
         | Some t \<Rightarrow>
             (case h t of
               None \<Rightarrow> Inl Undefined_behaviour
             | Some n \<Rightarrow>
                 (case increment (q_size q) of
                   Inl e \<Rightarrow> Inl e
                 | Inr sz \<Rightarrow>
                     Inr (q\<lparr>q_nodes := h(t \<mapsto> n\<lparr>next_node := Some newNode\<rparr>),
                            q_alloc := newNode + 1,
                            q_tail := Some newNode,
                            q_size := sz\<rparr>))))"

definition dequeue :: "'a queue \<Rightarrow> exn + ('a \<times> 'a queue)" where
  "dequeue q =
     (if queue_isEmpty q then Inl (Runtime_error ''Queue is empty'')
      else case q_head q of
        None \<Rightarrow> Inl Undefined_behaviour
      | Some temp \<Rightarrow>
          (case q_nodes q temp of
            None \<Rightarrow> Inl Undefined_behaviour
          | Some n \<Rightarrow>
              (case decrement (q_size q) of
                Inl e \<Rightarrow> Inl e
              | Inr sz \<Rightarrow>
                  Inr (data n,
                       q\<lparr>q_nodes := (q_nodes q)(temp := None),
                         q_head := next_node n,
                         q_tail := (if next_node n = None then None else q_tail q),
                         q_size := sz\<rparr>))))"

section \<open>Queue.cpp: the earlier, non-template queue of task pointers\<close>

text \<open>
  \<^verbatim>\<open>Queue.cpp\<close> still holds the queue of \<^verbatim>\<open>Task*\<close> that the templated header replaced.
  Its payload is a task pointer (\<open>None\<close> is \<^verbatim>\<open>nullptr\<close>); both operations print
  \<^verbatim>\<open>data->title\<close>, which dereferences the payload. On an empty queue its
  \<^verbatim>\<open>dequeue\<close> returns \<^verbatim>\<open>nullptr\<close>.
\<close>

definition Queue_enqueue :: "'p option \<Rightarrow> 'p option queue \<Rightarrow> exn + 'p option queue" where
  "Queue_enqueue d q = (if d = None then Inl Undefined_behaviour else enqueue d q)"

definition Queue_dequeue :: "'p option queue \<Rightarrow> exn + ('p option \<times> 'p option queue)" where
  "Queue_dequeue q =
     (if queue_isEmpty q then Inr (None, q)
      else case dequeue q of
        Inl e \<Rightarrow> Inl e
      | Inr (taskData, q') \<Rightarrow>
          (if taskData = None then Inl Undefined_behaviour else Inr (taskData, q')))"

section \<open>Sequences of container operations\<close>

text \<open>
  A client's calls on one container, run in order; a call that throws ends the run
  with its exception. The run returns the removed items in the order of removal.
\<close>

datatype 'a stack_op = Push 'a | Pop


datatype 'a queue_op = Enqueue 'a | Dequeue

fun run_queue :: "'a queue_op list \<Rightarrow> 'a queue \<Rightarrow> exn + ('a list \<times> 'a queue)" where
  "run_queue [] q = Inr ([], q)"
| "run_queue (Enqueue x # ops) q =
     (case enqueue x q of Inl e \<Rightarrow> Inl e | Inr q' \<Rightarrow> run_queue ops q')"
| "run_queue (Dequeue # ops) q =
     (case dequeue q of
       Inl e \<Rightarrow> Inl e
     | Inr (x, q') \<Rightarrow>
         (case run_queue ops q' of
           Inl e \<Rightarrow> Inl e
         | Inr (xs, q'') \<Rightarrow> Inr (x # xs, q'')))"


fun fifo_spec :: "'a queue_op list \<Rightarrow> 'a list \<Rightarrow> 'a list option" where
  "fifo_spec [] held = Some []"
| "fifo_spec (Enqueue x # ops) held = fifo_spec ops (held @ [x])"
| "fifo_spec (Dequeue # ops) [] = None"
| "fifo_spec (Dequeue # ops) (y # held) = map_option ((#) y) (fifo_spec ops held)"

fun enqueued :: "'a queue_op list \<Rightarrow> 'a list" where
  "enqueued [] = []"
| "enqueued (Enqueue x # ops) = x # enqueued ops"
| "enqueued (Dequeue # ops) = enqueued ops"

fun dequeues :: "'a queue_op list \<Rightarrow> nat" where
  "dequeues [] = 0"
| "dequeues (Enqueue x # ops) = dequeues ops"
| "dequeues (Dequeue # ops) = Suc (dequeues ops)"

text \<open>
  \<open>underflows ops n\<close>: run on a queue that holds \<open>n\<close> items, some dequeue of \<open>ops\<close>
  meets the empty queue.
\<close>

fun underflows :: "'a queue_op list \<Rightarrow> nat \<Rightarrow> bool" where
  "underflows [] n = False"
| "underflows (Enqueue x # ops) n = underflows ops (Suc n)"
| "underflows (Dequeue # ops) 0 = True"
| "underflows (Dequeue # ops) (Suc n) = underflows ops n"

text \<open>
  \<open>fits_int ops n\<close>: run on a queue that holds \<open>n\<close> items, every enqueue of \<open>ops\<close>
  (up to the first dequeue that meets the empty queue, which ends the run) finds fewer
  than \<^verbatim>\<open>INT_MAX\<close> items in the queue, so that the counter can be incremented.
\<close>

fun fits_int :: "'a queue_op list \<Rightarrow> nat \<Rightarrow> bool" where
  "fits_int [] n = True"
| "fits_int (Enqueue x # ops) n = (int n < INT_MAX \<and> fits_int ops (Suc n))"
| "fits_int (Dequeue # ops) 0 = True"
| "fits_int (Dequeue # ops) (Suc n) = fits_int ops n"

section \<open>The representation of a container in its node store\<close>

text \<open>
  \<open>chain h p cells\<close>: following \<^verbatim>\<open>next\<close> from pointer \<open>p\<close> in store \<open>h\<close> visits exactly
  the nodes at the addresses of \<open>cells\<close>, carrying the payloads of \<open>cells\<close>, and ends in
  \<^verbatim>\<open>nullptr\<close>.
\<close>

fun chain :: "'a heap \<Rightarrow> nat option \<Rightarrow> (nat \<times> 'a) list \<Rightarrow> bool" where
  "chain h p [] = (p = None)"
| "chain h p ((a, x) # cells) =
     (p = Some a \<and>
      (case h a of None \<Rightarrow> False | Some n \<Rightarrow> data n = x \<and> chain h (next_node n) cells))"


definition queue_inv :: "'a queue \<Rightarrow> (nat \<times> 'a) list \<Rightarrow> bool" where
  "queue_inv q cells =
     (chain (q_nodes q) (q_head q) cells \<and> distinct (map fst cells) \<and>
      (\<forall>a \<in> set (map fst cells). a < q_alloc q) \<and>
      q_tail q = (if cells = [] then None else Some (fst (last cells))) \<and>
      q_size q = int (length cells))"

section \<open>PriorityQueue.h: the scheduler's container\<close>

text \<open>
  Modelled from the spec: \<^verbatim>\<open>PriorityQueue.h\<close> is included by \<^verbatim>\<open>main.cpp\<close> but is not among
  the sources. The specification (4.3) gives its contract: \<^verbatim>\<open>insert(item, priorityKey)\<close>
  adds an item under an integer key; \<^verbatim>\<open>extractMin()\<close> removes and returns the item with the
  smallest key, ties between equal keys broken by insertion order (the earliest inserted wins);
  extracting from the empty container is the error \<^verbatim>\<open>EmptyContainer\<close>. The manager uses the
  result as a pair (priority, item). The model keeps the entries in insertion order and
  takes out the first entry that carries the least key.
\<close>

type_synonym 'a priority_queue = "(int \<times> 'a) list"

definition PriorityQueue :: "'a priority_queue" where
  "PriorityQueue = []"

definition pq_isEmpty :: "'a priority_queue \<Rightarrow> bool" where
  "pq_isEmpty pq = (pq = [])"

definition pq_size :: "'a priority_queue \<Rightarrow> int" where
  "pq_size pq = int (length pq)"

definition pq_insert :: "'a \<Rightarrow> int \<Rightarrow> 'a priority_queue \<Rightarrow> 'a priority_queue" where
  "pq_insert item priorityKey pq = pq @ [(priorityKey, item)]"

fun least_key :: "int \<Rightarrow> (int \<times> 'a) list \<Rightarrow> int" where
  "least_key m [] = m"
| "least_key m (e # es) = least_key (min m (fst e)) es"

fun take_first :: "int \<Rightarrow> (int \<times> 'a) list \<Rightarrow> ((int \<times> 'a) \<times> (int \<times> 'a) list) option" where
  "take_first k [] = None"
| "take_first k (e # es) =
     (if fst e = k then Some (e, es)
      else case take_first k es of
        None \<Rightarrow> None
      | Some (found, rest) \<Rightarrow> Some (found, e # rest))"

definition extract_min :: "'a priority_queue \<Rightarrow> exn + ((int \<times> 'a) \<times> 'a priority_queue)" where
  "extract_min pq =
     (case pq of
       [] \<Rightarrow> Inl (Runtime_error ''PriorityQueue is empty'')
     | e # es \<Rightarrow>
         (case take_first (least_key (fst e) es) pq of
           None \<Rightarrow> Inl Undefined_behaviour
         | Some (found, rest) \<Rightarrow> Inr (found, rest)))"

text \<open>Draining: \<^verbatim>\<open>while (!isEmpty()) extract_min()\<close>, collecting what comes out.\<close>

function drain :: "'a priority_queue \<Rightarrow> (int \<times> 'a) list" where
  "drain pq =
     (if pq_isEmpty pq then []
      else case extract_min pq of
        Inl e \<Rightarrow> []
      | Inr (found, rest) \<Rightarrow> found # drain rest)"
  by pat_completeness auto
termination
proof (relation "measure length")
  show "wf (measure length)" by simp
next
  fix pq :: "'a priority_queue" and x2 found rest
  assume "extract_min pq = Inr x2" and "(found, rest) = x2"
  then obtain k where tf: "take_first k pq = Some (found, rest)"
    by (auto simp: extract_min_def simp del: take_first.simps split: list.splits option.splits)
  have "take_first k es = Some (f, r) \<Longrightarrow> length es = Suc (length r)"
    for f r and es :: "(int \<times> 'a) list"
    by (induction es arbitrary: f r) (auto split: if_splits option.splits)
  from this[OF tf] show "(rest, pq) \<in> measure length" by simp
qed

declare drain.simps [simp del]

text \<open>The inserts of a run, in order, each a pair (priority key, item).\<close>

definition insert_all :: "(int \<times> 'a) list \<Rightarrow> 'a priority_queue \<Rightarrow> 'a priority_queue" where
  "insert_all entries pq = fold (\<lambda>(k, item) q. pq_insert item k q) entries pq"

section \<open>Task.h and UndoAction.h\<close>

record task =
  task_id :: int
  assignee_id :: int
  title :: string
  description :: string
  status :: string
  priority :: int

definition Task :: "string \<Rightarrow> string \<Rightarrow> int \<Rightarrow> string \<Rightarrow> int \<Rightarrow> int \<Rightarrow> task" where
  "Task t d p s ident assign_id =
     \<lparr>task_id = ident, assignee_id = assign_id, title = t, description = d,
      status = s, priority = p\<rparr>"

text \<open>
  \<^verbatim>\<open>struct UndoAction { std::string action_name; std::map<std::string, std::string> data; }\<close>.
  \<^verbatim>\<open>operator[]\<close> of the map gives the empty string for a key that is absent.
\<close>

record undo_action =
  action_name :: string
  action_data :: "string \<rightharpoonup> string"

definition UndoAction :: "string \<Rightarrow> (string \<rightharpoonup> string) \<Rightarrow> undo_action" where
  "UndoAction name d = \<lparr>action_name = name, action_data = d\<rparr>"

definition map_at :: "(string \<rightharpoonup> string) \<Rightarrow> string \<Rightarrow> string" where
  "map_at m k = (case m k of None \<Rightarrow> [] | Some v \<Rightarrow> v)"

section \<open>std::to_string and std::stoi\<close>

definition digit_char :: "nat \<Rightarrow> char" where
  "digit_char d = ''0123456789'' ! (d mod 10)"

fun digits :: "nat \<Rightarrow> string" where
  "digits n = (if n < 10 then [digit_char n] else digits (n div 10) @ [digit_char (n mod 10)])"

declare digits.simps [simp del]

definition to_string :: "int \<Rightarrow> string" where
  "to_string i = (if i < 0 then CHR ''-'' # digits (nat (- i)) else digits (nat i))"

definition digit_value :: "char \<Rightarrow> int option" where
  "digit_value ch =
     map_of [(CHR ''0'', 0), (CHR ''1'', 1), (CHR ''2'', 2), (CHR ''3'', 3), (CHR ''4'', 4),
             (CHR ''5'', 5), (CHR ''6'', 6), (CHR ''7'', 7), (CHR ''8'', 8), (CHR ''9'', 9)] ch"

definition isspace :: "char \<Rightarrow> bool" where
  "isspace ch = (ch \<in> set [CHR '' '', CHR 0x09, CHR 0x0A, CHR 0x0B, CHR 0x0C, CHR 0x0D])"

fun digits_value :: "int \<Rightarrow> string \<Rightarrow> int" where
  "digits_value acc [] = acc"
| "digits_value acc (ch # s) =
     (case digit_value ch of None \<Rightarrow> acc | Some d \<Rightarrow> digits_value (10 * acc + d) s)"

text \<open>
  \<^verbatim>\<open>std::stoi\<close>, base 10, on a 32-bit \<^verbatim>\<open>int\<close>: leading white space is skipped, a sign is
  optional, the digits that follow are read and the rest is ignored; no digit throws
  \<^verbatim>\<open>std::invalid_argument\<close>, a value outside \<^verbatim>\<open>int\<close> throws \<^verbatim>\<open>std::out_of_range\<close>.
\<close>

definition stoi :: "string \<Rightarrow> exn + int" where
  "stoi s =
     (let s1 = dropWhile isspace s;
          neg = (s1 \<noteq> [] \<and> hd s1 = CHR ''-'');
          s2 = (if s1 \<noteq> [] \<and> (hd s1 = CHR ''-'' \<or> hd s1 = CHR ''+'') then tl s1 else s1)
      in if s2 = [] \<or> digit_value (hd s2) = None then Inl (Invalid_argument ''stoi'')
         else let v = digits_value 0 s2; r = (if neg then - v else v)
              in if r < - 2147483648 \<or> 2147483647 < r then Inl (Out_of_range ''stoi'')
                 else Inr r)"

section \<open>The database session behind the connector\<close>

text \<open>
  \<^verbatim>\<open>DatabaseConnector\<close> talks to a MySQL server through Connector/C++; neither is code
  of this repository. The model keeps what the connector's statements read and write:
  the rows of \<^verbatim>\<open>Tasks\<close> (\<^verbatim>\<open>init_db.sql\<close>) as committed, the rows as this session
  sees them (committed rows and its own uncommitted writes), the autocommit flag, the
  \<^verbatim>\<open>AUTO_INCREMENT\<close> counter and \<^verbatim>\<open>LAST_INSERT_ID()\<close>. Rows stand in insertion order.

  Every driver call that reaches the server may throw \<^verbatim>\<open>sql::SQLException\<close>. Which
  calls do is the environment's choice, given as \<open>faults\<close>: each such call takes the
  next entry, and throws when the entry is \<open>True\<close>; with no entry left the call
  succeeds. A call that throws changes nothing else. The server's reasons to refuse a
  statement (a lost connection, a violated constraint of the schema) are not told apart:
  each is an entry of \<open>faults\<close>. Binding a parameter and reading a fetched result set
  are local and do not fail. The clock does not move by itself.
\<close>

record row =
  r_task_id :: int
  r_assignee_id :: "int option"
  r_title :: string
  r_description :: string
  r_status :: string
  r_priority :: int
  r_created_at :: nat

record connection =
  committed :: "row list"
  working :: "row list"
  auto_commit :: bool
  next_task_id :: int
  last_insert_id :: int
  clock :: nat
  faults :: "bool list"

type_synonym 'a db_result = "(exn + 'a) \<times> connection"

definition server_call :: "connection \<Rightarrow> bool \<times> connection" where
  "server_call c = (case faults c of [] \<Rightarrow> (False, c) | f # fs \<Rightarrow> (f, c\<lparr>faults := fs\<rparr>))"

text \<open>
  \<^verbatim>\<open>setAutoCommit\<close>: switching autocommit on while a transaction is open commits it, as
  MySQL does. \<^verbatim>\<open>commit\<close> makes the session's rows the committed ones; \<^verbatim>\<open>rollback\<close>
  gives the session the committed rows back.
\<close>

definition setAutoCommit :: "bool \<Rightarrow> connection \<Rightarrow> unit db_result" where
  "setAutoCommit b c =
     (case server_call c of
       (True, c') \<Rightarrow> (Inl SQLException, c')
     | (False, c') \<Rightarrow>
         (Inr (), c'\<lparr>auto_commit := b,
                     committed := (if b \<and> \<not> auto_commit c' then working c' else committed c')\<rparr>))"

definition commit :: "connection \<Rightarrow> unit db_result" where
  "commit c =
     (case server_call c of
       (True, c') \<Rightarrow> (Inl SQLException, c')
     | (False, c') \<Rightarrow> (Inr (), c'\<lparr>committed := working c'\<rparr>))"

definition rollback :: "connection \<Rightarrow> unit db_result" where
  "rollback c =
     (case server_call c of
       (True, c') \<Rightarrow> (Inl SQLException, c')
     | (False, c') \<Rightarrow> (Inr (), c'\<lparr>working := committed c'\<rparr>))"

definition prepareStatement :: "connection \<Rightarrow> unit db_result" where
  "prepareStatement c =
     (case server_call c of
       (True, c') \<Rightarrow> (Inl SQLException, c')
     | (False, c') \<Rightarrow> (Inr (), c'))"

definition createStatement :: "connection \<Rightarrow> unit db_result" where
  "createStatement c =
     (case server_call c of
       (True, c') \<Rightarrow> (Inl SQLException, c')
     | (False, c') \<Rightarrow> (Inr (), c'))"

text \<open>A write goes to the session's rows, and to the committed rows under autocommit.\<close>

definition write_rows :: "(row list \<Rightarrow> row list) \<Rightarrow> connection \<Rightarrow> connection" where
  "write_rows f c =
     (let w = f (working c)
      in c\<lparr>working := w, committed := (if auto_commit c then w else committed c)\<rparr>)"

text \<open>\<^verbatim>\<open>SELECT status FROM Tasks WHERE task_id = ? FOR UPDATE\<close>: the status of the row, if any.\<close>

definition select_status :: "int \<Rightarrow> connection \<Rightarrow> string option db_result" where
  "select_status ident c =
     (case server_call c of
       (True, c') \<Rightarrow> (Inl SQLException, c')
     | (False, c') \<Rightarrow>
         (Inr (map_option r_status (find (\<lambda>r. r_task_id r = ident) (working c'))), c'))"

text \<open>\<^verbatim>\<open>UPDATE Tasks SET status = ? WHERE task_id = ?\<close>\<close>

definition set_status :: "string \<Rightarrow> int \<Rightarrow> row list \<Rightarrow> row list" where
  "set_status s ident rows = map (\<lambda>r. if r_task_id r = ident then r\<lparr>r_status := s\<rparr> else r) rows"

definition update_status :: "string \<Rightarrow> int \<Rightarrow> connection \<Rightarrow> unit db_result" where
  "update_status s ident c =
     (case server_call c of
       (True, c') \<Rightarrow> (Inl SQLException, c')
     | (False, c') \<Rightarrow> (Inr (), write_rows (set_status s ident) c'))"

text \<open>
  \<^verbatim>\<open>INSERT INTO Tasks (title, description, priority, status, assignee_id) VALUES (?, ?, ?, ?, ?)\<close>:
  the row takes the next \<^verbatim>\<open>AUTO_INCREMENT\<close> identifier and the current time stamp.
\<close>

definition insert_task :: "string \<Rightarrow> string \<Rightarrow> int \<Rightarrow> string \<Rightarrow> int option \<Rightarrow> connection \<Rightarrow> unit db_result" where
  "insert_task t d p s assignee c =
     (case server_call c of
       (True, c') \<Rightarrow> (Inl SQLException, c')
     | (False, c') \<Rightarrow>
         (let new_row = \<lparr>r_task_id = next_task_id c', r_assignee_id = assignee, r_title = t,
                         r_description = d, r_status = s, r_priority = p,
                         r_created_at = clock c'\<rparr>
          in (Inr (), (write_rows (\<lambda>rows. rows @ [new_row]) c')
                        \<lparr>last_insert_id := next_task_id c',
                         next_task_id := next_task_id c' + 1\<rparr>)))"

text \<open>\<^verbatim>\<open>SELECT LAST_INSERT_ID()\<close>: always one row.\<close>

definition select_last_insert_id :: "connection \<Rightarrow> int option db_result" where
  "select_last_insert_id c =
     (case server_call c of
       (True, c') \<Rightarrow> (Inl SQLException, c')
     | (False, c') \<Rightarrow> (Inr (Some (last_insert_id c')), c'))"

text \<open>
  \<^verbatim>\<open>SELECT * FROM Tasks WHERE status = 'pending' ORDER BY priority ASC, created_at ASC\<close>;
  rows equal in both keys come in insertion order.
\<close>

definition select_pending :: "connection \<Rightarrow> row list db_result" where
  "select_pending c =
     (case server_call c of
       (True, c') \<Rightarrow> (Inl SQLException, c')
     | (False, c') \<Rightarrow>
         (Inr (sort_key r_priority (sort_key r_created_at
                 (filter (\<lambda>r. r_status r = ''pending'') (working c')))), c'))"

text \<open>
  A statement or result-set pointer of a connector function: \<^verbatim>\<open>nullptr\<close>, pointing to
  a live object, or still holding the address of an object that was deleted.
  \<^verbatim>\<open>delete p\<close> and \<^verbatim>\<open>if (p) delete p\<close> do nothing on \<^verbatim>\<open>nullptr\<close>; deleting a deleted
  object is undefined.
\<close>

datatype handle = Nullptr | Live | Deleted

definition delete_ptr :: "handle \<Rightarrow> exn + handle" where
  "delete_ptr p =
     (case p of Nullptr \<Rightarrow> Inr Nullptr | Live \<Rightarrow> Inr Deleted | Deleted \<Rightarrow> Inl Undefined_behaviour)"

section \<open>DatabaseConnector.cpp\<close>

text \<open>
  The connector after a successful \<^verbatim>\<open>connect()\<close> (a failed one ends the process), so
  each function runs on the session. A function body is a sequence of statements over
  its locals and the session; a statement that throws ends the sequence, and the locals
  and the session reach the handler as they are at the throw.
\<close>

type_synonym ('l, 'a) body = "'l \<Rightarrow> connection \<Rightarrow> (exn + 'a) \<times> 'l \<times> connection"

definition then_do :: "('l, 'a) body \<Rightarrow> ('a \<Rightarrow> ('l, 'b) body) \<Rightarrow> ('l, 'b) body" where
  "then_do m f =
     (\<lambda>l c. case m l c of (r, l', c') \<Rightarrow> (case r of Inl e \<Rightarrow> (Inl e, l', c') | Inr x \<Rightarrow> f x l' c'))"

definition driver :: "(connection \<Rightarrow> 'a db_result) \<Rightarrow> ('l, 'a) body" where
  "driver call = (\<lambda>l c. case call c of (r, c') \<Rightarrow> (r, l, c'))"

definition assign :: "('l \<Rightarrow> 'l) \<Rightarrow> ('l, unit) body" where
  "assign f = (\<lambda>l c. (Inr (), f l, c))"

definition throw :: "exn \<Rightarrow> ('l, 'a) body" where
  "throw e = (\<lambda>l c. (Inl e, l, c))"

definition return_of :: "('l \<Rightarrow> 'a) \<Rightarrow> ('l, 'a) body" where
  "return_of f = (\<lambda>l c. (Inr (f l), l, c))"

definition delete :: "('l \<Rightarrow> handle) \<Rightarrow> ((handle \<Rightarrow> handle) \<Rightarrow> 'l \<Rightarrow> 'l) \<Rightarrow> ('l, unit) body" where
  "delete ptr ptr_update =
     (\<lambda>l c. case delete_ptr (ptr l) of
        Inl e \<Rightarrow> (Inl e, l, c)
      | Inr p \<Rightarrow> (Inr (), ptr_update (\<lambda>_. p) l, c))"

subsection \<open>createTask\<close>

datatype task_ptr = Null_task | This_task

record create_locals =
  ct_pstmt :: handle
  ct_stmt :: handle
  ct_res :: handle
  ct_task :: task

text \<open>
  The \<^verbatim>\<open>try\<close> block in the order of the source: \<^verbatim>\<open>prepareStatement\<close> (the
  \<^verbatim>\<open>INSERT\<close>); the five parameters, \<^verbatim>\<open>assignee_id\<close> bound to \<^verbatim>\<open>NULL\<close> when it is 0;
  \<^verbatim>\<open>execute()\<close>; \<^verbatim>\<open>delete pstmt\<close>; \<^verbatim>\<open>createStatement\<close>;
  \<^verbatim>\<open>executeQuery("SELECT LAST_INSERT_ID()")\<close>; \<^verbatim>\<open>if (res->next()) task->task_id = ...\<close>;
  \<^verbatim>\<open>delete res\<close>; \<^verbatim>\<open>delete stmt\<close>; \<^verbatim>\<open>return task\<close>. The handler:
  \<^verbatim>\<open>if (pstmt) delete pstmt; if (res) delete res; if (stmt) delete stmt; return nullptr\<close>.
\<close>

definition createTask_try :: "(create_locals, task_ptr) body" where
  "createTask_try =
     then_do (driver prepareStatement) (\<lambda>_.
     then_do (assign (\<lambda>l. l\<lparr>ct_pstmt := Live\<rparr>)) (\<lambda>_.
     then_do (\<lambda>l. driver (insert_task (title (ct_task l)) (description (ct_task l))
                            (priority (ct_task l)) (status (ct_task l))
                            (if assignee_id (ct_task l) = 0 then None
                             else Some (assignee_id (ct_task l)))) l) (\<lambda>_.
     then_do (delete ct_pstmt ct_pstmt_update) (\<lambda>_.
     then_do (driver createStatement) (\<lambda>_.
     then_do (assign (\<lambda>l. l\<lparr>ct_stmt := Live\<rparr>)) (\<lambda>_.
     then_do (driver select_last_insert_id) (\<lambda>rs.
     then_do (assign (\<lambda>l. l\<lparr>ct_res := Live\<rparr>)) (\<lambda>_.
     then_do (assign (\<lambda>l. case rs of
                             None \<Rightarrow> l
                           | Some ident \<Rightarrow> l\<lparr>ct_task := (ct_task l)\<lparr>task_id := ident\<rparr>\<rparr>)) (\<lambda>_.
     then_do (delete ct_res ct_res_update) (\<lambda>_.
     then_do (delete ct_stmt ct_stmt_update) (\<lambda>_.
     return_of (\<lambda>l. This_task))))))))))))"

definition createTask_catch :: "(create_locals, task_ptr) body" where
  "createTask_catch =
     then_do (delete ct_pstmt ct_pstmt_update) (\<lambda>_.
     then_do (delete ct_res ct_res_update) (\<lambda>_.
     then_do (delete ct_stmt ct_stmt_update) (\<lambda>_.
     return_of (\<lambda>l. Null_task))))"

text \<open>
  \<open>createTask t c\<close> gives what the call returns (the pointer it was passed, or
  \<^verbatim>\<open>nullptr\<close>), the task object after the call, and the session.
\<close>

definition createTask :: "task \<Rightarrow> connection \<Rightarrow> (exn + task_ptr) \<times> task \<times> connection" where
  "createTask t c =
     (case createTask_try \<lparr>ct_pstmt = Nullptr, ct_stmt = Nullptr, ct_res = Nullptr, ct_task = t\<rparr> c of
       (r, l, c') \<Rightarrow>
         (case (if r = Inl SQLException then createTask_catch l c' else (r, l, c')) of
           (r', l', c'') \<Rightarrow> (r', ct_task l', c'')))"

subsection \<open>getPendingTasks\<close>

definition task_of_row :: "row \<Rightarrow> task" where
  "task_of_row r =
     Task (r_title r) (r_description r) (r_priority r) (r_status r) (r_task_id r)
       (case r_assignee_id r of None \<Rightarrow> 0 | Some a \<Rightarrow> a)"

record pending_locals =
  gp_stmt :: handle
  gp_res :: handle
  gp_tasks :: "task list"

text \<open>
  The \<^verbatim>\<open>try\<close> block: \<^verbatim>\<open>createStatement\<close>; \<^verbatim>\<open>executeQuery\<close>; one task per row
  pushed to \<^verbatim>\<open>tasks\<close>; \<^verbatim>\<open>delete res\<close>; \<^verbatim>\<open>delete stmt\<close>. The handler frees what is
  set. Either way the function returns \<^verbatim>\<open>tasks\<close>.
\<close>

definition getPendingTasks_try :: "(pending_locals, unit) body" where
  "getPendingTasks_try =
     then_do (driver createStatement) (\<lambda>_.
     then_do (assign (\<lambda>l. l\<lparr>gp_stmt := Live\<rparr>)) (\<lambda>_.
     then_do (driver select_pending) (\<lambda>rows.
     then_do (assign (\<lambda>l. l\<lparr>gp_res := Live\<rparr>)) (\<lambda>_.
     then_do (assign (\<lambda>l. l\<lparr>gp_tasks := gp_tasks l @ map task_of_row rows\<rparr>)) (\<lambda>_.
     then_do (delete gp_res gp_res_update) (\<lambda>_.
     delete gp_stmt gp_stmt_update))))))"

definition getPendingTasks_catch :: "(pending_locals, unit) body" where
  "getPendingTasks_catch =
     then_do (delete gp_res gp_res_update) (\<lambda>_.
     delete gp_stmt gp_stmt_update)"

definition getPendingTasks :: "connection \<Rightarrow> task list db_result" where
  "getPendingTasks c =
     (case getPendingTasks_try \<lparr>gp_stmt = Nullptr, gp_res = Nullptr, gp_tasks = []\<rparr> c of
       (r, l, c') \<Rightarrow>
         (case (if r = Inl SQLException then getPendingTasks_catch l c' else (r, l, c')) of
           (r', l', c'') \<Rightarrow> (map_sum id (\<lambda>_. gp_tasks l') r', c'')))"

subsection \<open>updateTaskStatus\<close>

record update_locals =
  ut_pstmt_select :: handle
  ut_pstmt_update :: handle
  ut_res :: handle
  ut_old_status :: string

text \<open>
  The \<^verbatim>\<open>try\<close> block in the order of the source: \<^verbatim>\<open>setAutoCommit(false)\<close>;
  \<^verbatim>\<open>prepareStatement\<close> and \<^verbatim>\<open>executeQuery\<close> of the \<^verbatim>\<open>SELECT ... FOR UPDATE\<close>;
  \<^verbatim>\<open>if (!res->next()) throw std::runtime_error("Task not found")\<close>;
  \<^verbatim>\<open>old_status = res->getString("status")\<close>; \<^verbatim>\<open>prepareStatement\<close> and
  \<^verbatim>\<open>executeUpdate\<close> of the \<^verbatim>\<open>UPDATE\<close>; \<^verbatim>\<open>commit()\<close>; \<^verbatim>\<open>setAutoCommit(true)\<close>;
  the three deletes; \<^verbatim>\<open>return (true, old_status)\<close>. (\<^verbatim>\<open>DatabaseConnector.h\<close> still
  declares the result as \<^verbatim>\<open>bool\<close>; the definition and the manager use the pair.)
\<close>

definition updateTaskStatus_try :: "int \<Rightarrow> string \<Rightarrow> (update_locals, bool \<times> string) body" where
  "updateTaskStatus_try ident new_status =
     then_do (driver (setAutoCommit False)) (\<lambda>_.
     then_do (driver prepareStatement) (\<lambda>_.
     then_do (assign (\<lambda>l. l\<lparr>ut_pstmt_select := Live\<rparr>)) (\<lambda>_.
     then_do (driver (select_status ident)) (\<lambda>rs.
     then_do (assign (\<lambda>l. l\<lparr>ut_res := Live\<rparr>)) (\<lambda>_.
     then_do (case rs of
                None \<Rightarrow> throw (Runtime_error ''Task not found'')
              | Some st \<Rightarrow> assign (\<lambda>l. l\<lparr>ut_old_status := st\<rparr>)) (\<lambda>_.
     then_do (driver prepareStatement) (\<lambda>_.
     then_do (assign (\<lambda>l. l\<lparr>ut_pstmt_update := Live\<rparr>)) (\<lambda>_.
     then_do (driver (update_status new_status ident)) (\<lambda>_.
     then_do (driver commit) (\<lambda>_.
     then_do (driver (setAutoCommit True)) (\<lambda>_.
     then_do (delete ut_res ut_res_update) (\<lambda>_.
     then_do (delete ut_pstmt_select ut_pstmt_select_update) (\<lambda>_.
     then_do (delete ut_pstmt_update ut_pstmt_update_update) (\<lambda>_.
     return_of (\<lambda>l. (True, ut_old_status l))))))))))))))))"

text \<open>
  The handler \<^verbatim>\<open>catch (sql::SQLException &e)\<close>: roll back and switch autocommit on
  again, a failure of either being caught and only reported; free the statements; return
  \<open>(false, old_status)\<close>.
\<close>

definition updateTaskStatus_rollback :: "(update_locals, unit) body" where
  "updateTaskStatus_rollback =
     (\<lambda>l c. case then_do (driver rollback) (\<lambda>_. driver (setAutoCommit True)) l c of
        (r, l', c') \<Rightarrow> (if r = Inl SQLException then (Inr (), l', c') else (r, l', c')))"

definition updateTaskStatus_catch :: "(update_locals, bool \<times> string) body" where
  "updateTaskStatus_catch =
     then_do updateTaskStatus_rollback (\<lambda>_.
     then_do (delete ut_res ut_res_update) (\<lambda>_.
     then_do (delete ut_pstmt_select ut_pstmt_select_update) (\<lambda>_.
     then_do (delete ut_pstmt_update ut_pstmt_update_update) (\<lambda>_.
     return_of (\<lambda>l. (False, ut_old_status l))))))"

definition updateTaskStatus :: "int \<Rightarrow> string \<Rightarrow> connection \<Rightarrow> (bool \<times> string) db_result" where
  "updateTaskStatus ident new_status c =
     (case updateTaskStatus_try ident new_status
             \<lparr>ut_pstmt_select = Nullptr, ut_pstmt_update = Nullptr, ut_res = Nullptr,
              ut_old_status = []\<rparr> c of
       (r, l, c') \<Rightarrow>
         (case (if r = Inl SQLException then updateTaskStatus_catch l c' else (r, l, c')) of
           (r', l', c'') \<Rightarrow> (r', c'')))"

text \<open>The status a reader of the committed table finds for a task.\<close>

definition durable_status :: "connection \<Rightarrow> int \<Rightarrow> string option" where
  "durable_status c ident = map_option r_status (find (\<lambda>r. r_task_id r = ident) (committed c))"

section \<open>main.cpp: the TaskManager\<close>

text \<open>
  The manager holds the connector, the queue of new tasks, the scheduler and the undo
  stack. Each task has one owner at a time (the \<^verbatim>\<open>unique_ptr\<close> in the queue, then the
  \<^verbatim>\<open>shared_ptr\<close> in the scheduler and in the loop's frame), so tasks are values here.
  \<open>console\<close> collects the lines the manager's own methods write to \<^verbatim>\<open>std::cout\<close>;
  the pauses (\<^verbatim>\<open>sleep_for\<close>) and the connector's diagnostics are left out. An exception
  that leaves a method is the result \<open>Inl\<close>: nothing in \<^verbatim>\<open>main.cpp\<close> catches it.
\<close>

record task_manager =
  db :: connection
  new_task_queue :: "task queue"
  task_scheduler :: "task priority_queue"
  undo_stack :: "undo_action stack"
  console :: "string list"

definition cout :: "string \<Rightarrow> task_manager \<Rightarrow> task_manager" where
  "cout line m = m\<lparr>console := console m @ [line]\<rparr>"

definition separator :: "string \<Rightarrow> string" where
  "separator t =
     CHR 0x0A # replicate 25 (CHR ''='') @ '' '' @ t @ '' '' @ replicate 25 (CHR ''='')"

definition quoted :: "string \<Rightarrow> string" where
  "quoted s = CHR 0x27 # s @ [CHR 0x27]"

definition TaskManager :: "connection \<Rightarrow> task_manager" where
  "TaskManager db_conn =
     \<lparr>db = db_conn, new_task_queue = Queue, task_scheduler = PriorityQueue,
      undo_stack = Stack,
      console = [''TaskManager initialized with Queue, PriorityQueue, and Stack.'']\<rparr>"

subsection \<open>Step 1: submit_new_task\<close>

definition submit_new_task :: "string \<Rightarrow> string \<Rightarrow> int \<Rightarrow> int \<Rightarrow> task_manager \<Rightarrow> exn + task_manager" where
  "submit_new_task t desc p user_id m =
     (let m = cout (CHR 0x0A # ''User submitted new task: '' @ quoted t) m;
          task_ptr = Task t desc p ''pending'' 0 user_id
      in case enqueue task_ptr (new_task_queue m) of
           Inl e \<Rightarrow> Inl e
         | Inr q \<Rightarrow> Inr (cout (''[Queue]: Enqueued '' @ t) (m\<lparr>new_task_queue := q\<rparr>)))"

subsection \<open>Step 2: process_new_task_queue\<close>

text \<open>
  \<^verbatim>\<open>while (!new_task_queue.isEmpty())\<close>: the loop ends when the queue's head is
  \<^verbatim>\<open>nullptr\<close>; \<open>None\<close> is the loop that never gets there. The result of
  \<^verbatim>\<open>createTask\<close> is dropped and the task object destroyed.
\<close>

partial_function (option) process_new_task_queue_loop :: "task_manager \<Rightarrow> (exn + task_manager) option" where
  "process_new_task_queue_loop m =
     (if queue_isEmpty (new_task_queue m) then Some (Inr m)
      else case dequeue (new_task_queue m) of
        Inl e \<Rightarrow> Some (Inl e)
      | Inr dq \<Rightarrow>
          (let task_to_save = fst dq;
               m = cout (''Processor: Saving '' @ quoted (title task_to_save) @ '' to database...'')
                     (m\<lparr>new_task_queue := snd dq\<rparr>);
               created = createTask task_to_save (db m)
           in case fst created of
                Inl e \<Rightarrow> Some (Inl e)
              | Inr _ \<Rightarrow> process_new_task_queue_loop (m\<lparr>db := snd (snd created)\<rparr>)))"

definition process_new_task_queue :: "task_manager \<Rightarrow> (exn + task_manager) option" where
  "process_new_task_queue m =
     map_option (map_sum id (cout ''Task queue empty. All new tasks persisted.''))
       (process_new_task_queue_loop (cout (separator ''Processing New Task Queue'') m))"

subsection \<open>Step 3: load_tasks_into_scheduler\<close>

definition load_task :: "task \<Rightarrow> task_manager \<Rightarrow> task_manager" where
  "load_task task_sptr m =
     cout (''[P-Queue]: Inserted '' @ quoted (title task_sptr) @ '' with priority '' @
           to_string (priority task_sptr))
       (m\<lparr>task_scheduler := pq_insert task_sptr (priority task_sptr) (task_scheduler m)\<rparr>)"

definition load_tasks_into_scheduler :: "task_manager \<Rightarrow> exn + task_manager" where
  "load_tasks_into_scheduler m =
     (let m = cout (separator ''Loading Pending Tasks into Scheduler'') m;
          m = cout (''Fetching '' @ quoted ''pending'' @ '' tasks from database...'') m;
          fetched = getPendingTasks (db m);
          m = m\<lparr>db := snd fetched\<rparr>
      in case fst fetched of
           Inl e \<Rightarrow> Inl e
         | Inr pending_tasks \<Rightarrow>
             (if pending_tasks = [] then Inr (cout ''No pending tasks found.'' m)
              else
                Inr (cout ''Task Scheduler is loaded.''
                      (fold load_task pending_tasks
                         (cout (''Found '' @ to_string (int (length pending_tasks)) @
                                '' pending tasks. Loading into PriorityQueue...'') m)))))"

subsection \<open>Step 4: run_task_scheduler\<close>

text \<open>
  One turn of the loop, after \<^verbatim>\<open>extract_min\<close> has handed over the pair (priority,
  task): the update to \<^verbatim>\<open>in_progress\<close>, the undo record when that update reports success,
  then the update to \<^verbatim>\<open>completed\<close>.
\<close>

definition run_task :: "int \<times> task \<Rightarrow> task_manager \<Rightarrow> exn + task_manager" where
  "run_task item m =
     (let prio = fst item;
          task = snd item;
          m = cout (CHR 0x0A # ''Executing Task (Priority '' @ to_string prio @ ''): '' @
                    quoted (title task)) m;
          m = cout (''  -> Changing status from '' @ quoted (status task) @ '' to '' @
                    quoted ''in_progress'') m;
          result = updateTaskStatus (task_id task) ''in_progress'' (db m);
          m = m\<lparr>db := snd result\<rparr>
      in case fst result of
           Inl e \<Rightarrow> Inl e
         | Inr r \<Rightarrow>
             (let success = fst r;
                  old_status = snd r;
                  m = (if success then
                         cout (''[Stack]: Pushed undo action for task '' @ to_string (task_id task))
                           (m\<lparr>undo_stack :=
                                push (UndoAction ''update_status''
                                        [''task_id'' \<mapsto> to_string (task_id task),
                                         ''old_status'' \<mapsto> old_status])
                                  (undo_stack m)\<rparr>)
                       else m);
                  m = cout (''  -> Task '' @ quoted (title task) @ '' complete.'') m;
                  completed = updateTaskStatus (task_id task) ''completed'' (db m)
              in case fst completed of
                   Inl e \<Rightarrow> Inl e
                 | Inr _ \<Rightarrow> Inr (m\<lparr>db := snd completed\<rparr>)))"

function run_task_scheduler_loop :: "task_manager \<Rightarrow> exn + task_manager" where
  "run_task_scheduler_loop m =
     (if pq_isEmpty (task_scheduler m) then Inr m
      else case extract_min (task_scheduler m) of
        Inl e \<Rightarrow> Inl e
      | Inr ex \<Rightarrow>
          (case run_task (fst ex) (m\<lparr>task_scheduler := snd ex\<rparr>) of
            Inl e \<Rightarrow> Inl e
          | Inr m' \<Rightarrow> run_task_scheduler_loop m'))"
  by pat_completeness auto
termination
proof (relation "measure (\<lambda>m. length (task_scheduler m))")
  show "wf (measure (\<lambda>m. length (task_scheduler m)))" by simp
next
  fix m :: task_manager and ex m'
  assume ex: "extract_min (task_scheduler m) = Inr ex"
    and run: "run_task (fst ex) (m\<lparr>task_scheduler := snd ex\<rparr>) = Inr m'"
  from ex obtain k where tf: "take_first k (task_scheduler m) = Some (fst ex, snd ex)"
    by (cases ex)
      (auto simp: extract_min_def simp del: take_first.simps split: list.splits option.splits)
  have "take_first k es = Some (f, r) \<Longrightarrow> length es = Suc (length r)"
    for f r and es :: "(int \<times> task) list"
    by (induction es arbitrary: f r) (auto split: if_splits option.splits)
  from this[OF tf]
  have shorter: "length (snd ex) < length (task_scheduler m)" by simp
  from run have "task_scheduler m' = snd ex"
    by (auto simp: run_task_def Let_def cout_def split: sum.splits if_splits)
  with shorter show "(m', m) \<in> measure (\<lambda>m. length (task_scheduler m))" by simp
qed

declare run_task_scheduler_loop.simps [simp del]

definition run_task_scheduler :: "task_manager \<Rightarrow> exn + task_manager" where
  "run_task_scheduler m =
     map_sum id (cout ''Task Scheduler is empty. All high-priority work is done.'')
       (run_task_scheduler_loop (cout (separator ''Running Task Scheduler'') m))"

subsection \<open>Step 5: undo_last_action\<close>

definition undo_last_action :: "task_manager \<Rightarrow> exn + task_manager" where
  "undo_last_action m =
     (let m = cout (separator ''Undo Last Action'') m
      in if stack_isEmpty (undo_stack m) then Inr (cout ''Nothing to undo.'' m)
         else case pop (undo_stack m) of
           Inl e \<Rightarrow> Inl e
         | Inr popped \<Rightarrow>
             (let action = fst popped;
                  m = m\<lparr>undo_stack := snd popped\<rparr>
              in if action_name action = ''update_status'' then
                   (case stoi (map_at (action_data action) ''task_id'') of
                     Inl e \<Rightarrow> Inl e
                   | Inr ident \<Rightarrow>
                       (let status_to_revert = map_at (action_data action) ''old_status'';
                            m = cout (''Undoing status update for Task ID '' @ to_string ident @ ''...'') m;
                            m = cout (''  -> Reverting to status: '' @ quoted status_to_revert) m;
                            reverted = updateTaskStatus ident status_to_revert (db m)
                        in case fst reverted of
                             Inl e \<Rightarrow> Inl e
                           | Inr _ \<Rightarrow> Inr (m\<lparr>db := snd reverted\<rparr>)))
                 else Inr m))"

subsection \<open>The run of main on one submitted task\<close>

text \<open>
  \<^verbatim>\<open>main\<close> with a single submission: submit, process the queue, load the scheduler,
  run it, undo once. The manager is named after each of the five calls. A call is made
  only if the one before it returned without an exception; \<open>None\<close> is the run whose
  queue loop does not return.
\<close>

definition next_step :: "(task_manager \<Rightarrow> exn + task_manager) \<Rightarrow> (exn + task_manager) option \<Rightarrow> (exn + task_manager) option" where
  "next_step f r =
     (case r of
       None \<Rightarrow> None
     | Some (Inl e) \<Rightarrow> Some (Inl e)
     | Some (Inr m) \<Rightarrow> Some (f m))"

definition single_task_submitted :: "string \<Rightarrow> string \<Rightarrow> int \<Rightarrow> int \<Rightarrow> connection \<Rightarrow> (exn + task_manager) option" where
  "single_task_submitted t desc p user_id c =
     Some (submit_new_task t desc p user_id (TaskManager c))"

definition single_task_persisted :: "string \<Rightarrow> string \<Rightarrow> int \<Rightarrow> int \<Rightarrow> connection \<Rightarrow> (exn + task_manager) option" where
  "single_task_persisted t desc p user_id c =
     (case single_task_submitted t desc p user_id c of
       None \<Rightarrow> None
     | Some (Inl e) \<Rightarrow> Some (Inl e)
     | Some (Inr m) \<Rightarrow> process_new_task_queue m)"

definition single_task_loaded :: "string \<Rightarrow> string \<Rightarrow> int \<Rightarrow> int \<Rightarrow> connection \<Rightarrow> (exn + task_manager) option" where
  "single_task_loaded t desc p user_id c =
     next_step load_tasks_into_scheduler (single_task_persisted t desc p user_id c)"

definition single_task_executed :: "string \<Rightarrow> string \<Rightarrow> int \<Rightarrow> int \<Rightarrow> connection \<Rightarrow> (exn + task_manager) option" where
  "single_task_executed t desc p user_id c =
     next_step run_task_scheduler (single_task_loaded t desc p user_id c)"

definition single_task_run :: "string \<Rightarrow> string \<Rightarrow> int \<Rightarrow> int \<Rightarrow> connection \<Rightarrow> (exn + task_manager) option" where
  "single_task_run t desc p user_id c =
     next_step undo_last_action (single_task_executed t desc p user_id c)"

text \<open>
  What a stage of the run is observed by: the value \<open>f\<close> reads off the manager, when the
  stage has returned without an exception.
\<close>

definition observed :: "(task_manager \<Rightarrow> 'a) \<Rightarrow> (exn + task_manager) option \<Rightarrow> (exn + 'a) option" where
  "observed f r = map_option (map_sum id f) r"

text \<open>The identifier and the status of every committed row, in the table's order.\<close>

definition durable_statuses :: "connection \<Rightarrow> (int \<times> string) list" where
  "durable_statuses c = map (\<lambda>r. (r_task_id r, r_status r)) (committed c)"

text \<open>
  The record on top of the undo stack, read as \<^verbatim>\<open>undo_last_action\<close> reads it (name,
  \<^verbatim>\<open>data["task_id"]\<close>, \<^verbatim>\<open>data["old_status"]\<close>), and whether the stack is empty under it.
\<close>

definition top_undo :: "task_manager \<Rightarrow> exn + string \<times> string \<times> string \<times> bool" where
  "top_undo m =
     map_sum id
       (\<lambda>popped. (action_name (fst popped), map_at (action_data (fst popped)) ''task_id'',
                   map_at (action_data (fst popped)) ''old_status'', stack_isEmpty (snd popped)))
       (pop (undo_stack m))"

text \<open>A session on a new database: no task row yet, autocommit on, no driver fault ahead.\<close>

definition new_session :: connection where
  "new_session =
     \<lparr>committed = [], working = [], auto_commit = True, next_task_id = 1,
      last_insert_id = 0, clock = 0, faults = []\<rparr>"

text \<open>
  The session after the second task of \<^verbatim>\<open>main\<close> (\<^verbatim>\<open>Deploy to prod (C++)\<close>, priority 2)
  has been created as the only row: the task is stored under identifier 1 with status
  \<^verbatim>\<open>pending\<close>.
\<close>

definition deploy_task :: task where
  "deploy_task = Task ''Deploy to prod (C++)'' ''Push v2.0'' 2 ''pending'' 0 1"

definition one_pending_task :: connection where
  "one_pending_task = snd (snd (createTask deploy_task new_session))"

text \<open>The same session after that task has been set to \<^verbatim>\<open>completed\<close>.\<close>

definition one_completed_task :: connection where
  "one_completed_task = snd (updateTaskStatus 1 ''completed'' one_pending_task)"

section \<open>Verification of the containers\<close>

subsection \<open>Chains in a node store\<close>

lemma chain_store_update:
  "a \<notin> set (map fst cells) \<Longrightarrow> chain (h(a := v)) p cells = chain h p cells"
  by (induction cells arbitrary: p) (auto split: option.splits)

lemma chain_last_allocated:
  "chain h p cells \<Longrightarrow> cells \<noteq> [] \<Longrightarrow> \<exists>n. h (fst (last cells)) = Some n"
  by (induction cells arbitrary: p) (auto split: option.splits)

lemma chain_link_last:
  "chain h p cells \<Longrightarrow> cells \<noteq> [] \<Longrightarrow> distinct (map fst cells) \<Longrightarrow>
   new \<notin> set (map fst cells) \<Longrightarrow> h (fst (last cells)) = Some n \<Longrightarrow>
   chain (h(new \<mapsto> Node x, fst (last cells) \<mapsto> n\<lparr>next_node := Some new\<rparr>)) p (cells @ [(new, x)])"
proof (induction cells arbitrary: p)
  case Nil
  then show ?case by simp
next
  case (Cons c cells)
  obtain a y where c: "c = (a, y)" by (cases c)
  show ?case
  proof (cases "cells = []")
    case True
    with Cons.prems c show ?thesis
      by (auto simp: Node_def split: option.splits)
  next
    case False
    with Cons.prems c have "a \<noteq> fst (last cells)" "a \<noteq> new"
      by (auto simp: last_in_set image_iff dest: last_in_set)
    with Cons c False show ?thesis
      by (auto split: option.splits)
  qed
qed

subsection \<open>The stack keeps its representation\<close>










subsection \<open>The queue keeps its representation\<close>

lemma queue_inv_Queue: "queue_inv Queue []"
  by (simp add: queue_inv_def Queue_def)

lemma enqueue_inv:
  assumes "queue_inv q cells" and room: "int (length cells) < INT_MAX"
  shows "\<exists>q'. enqueue x q = Inr q' \<and> queue_inv q' (cells @ [(q_alloc q, x)])"
proof (cases "cells = []")
  case True
  with assms show ?thesis
    by (auto simp: queue_inv_def enqueue_def queue_isEmpty_def Let_def Node_def increment_def)
next
  case False
  from assms have ch: "chain (q_nodes q) (q_head q) cells" and dist: "distinct (map fst cells)"
    and fresh: "q_alloc q \<notin> set (map fst cells)"
    and tl: "q_tail q = Some (fst (last cells))"
    and sz: "q_size q = int (length cells)"
    using False by (auto simp: queue_inv_def)
  from chain_last_allocated[OF ch False] obtain n where n: "q_nodes q (fst (last cells)) = Some n" ..
  obtain a0 where ne: "q_head q = Some a0" using ch False by (cases cells) auto
  have neq: "fst (last cells) \<noteq> q_alloc q"
    using fresh False by (metis last_in_set last_map list.map_disc_iff)
  have inc: "increment (q_size q) = Inr (q_size q + 1)"
    using sz room by (simp add: increment_def)
  let ?q' = "q\<lparr>q_nodes := (q_nodes q)(q_alloc q \<mapsto> Node x, fst (last cells) \<mapsto> n\<lparr>next_node := Some (q_alloc q)\<rparr>),
                q_alloc := q_alloc q + 1, q_tail := Some (q_alloc q), q_size := q_size q + 1\<rparr>"
  have "enqueue x q = Inr ?q'"
    using ne tl n neq inc by (simp add: enqueue_def queue_isEmpty_def Let_def)
  moreover have "queue_inv ?q' (cells @ [(q_alloc q, x)])"
    using assms(1) chain_link_last[OF ch False dist fresh n, of x] fresh
    by (auto simp: queue_inv_def)
  ultimately show ?thesis by blast
qed

text \<open>With \<^verbatim>\<open>INT_MAX\<close> items in the queue, \<^verbatim>\<open>_size++\<close> overflows.\<close>

lemma enqueue_overflow:
  assumes "queue_inv q cells" and full: "int (length cells) = INT_MAX"
  shows "enqueue x q = Inl Undefined_behaviour"
proof -
  from full have ne: "cells \<noteq> []" by (auto simp: INT_MAX_def)
  from assms have ch: "chain (q_nodes q) (q_head q) cells"
    and tl: "q_tail q = Some (fst (last cells))" and sz: "q_size q = INT_MAX"
    using ne by (auto simp: queue_inv_def)
  obtain a0 where hd: "q_head q = Some a0" using ch ne by (cases cells) auto
  show ?thesis
    using hd tl sz
    by (simp add: enqueue_def queue_isEmpty_def Let_def increment_def split: option.splits)
qed

lemma dequeue_empty:
  "queue_inv q [] \<Longrightarrow> dequeue q = Inl (Runtime_error ''Queue is empty'')"
  by (simp add: queue_inv_def dequeue_def queue_isEmpty_def)

lemma dequeue_nonempty:
  assumes "queue_inv q ((a, x) # cells)"
  shows "\<exists>q'. dequeue q = Inr (x, q') \<and> queue_inv q' cells"
proof -
  from assms obtain n where hd: "q_head q = Some a" and n: "q_nodes q a = Some n"
    and dn: "data n = x" and rest: "chain (q_nodes q) (next_node n) cells"
    by (auto simp: queue_inv_def split: option.splits)
  have notin: "a \<notin> set (map fst cells)"
    using assms by (simp add: queue_inv_def)
  have nil: "(next_node n = None) = (cells = [])"
    using rest by (cases cells) auto
  have dec: "decrement (q_size q) = Inr (q_size q - 1)"
    using assms by (simp add: queue_inv_def decrement_def INT_MIN_def)
  let ?q' = "q\<lparr>q_nodes := (q_nodes q)(a := None), q_head := next_node n,
               q_tail := (if next_node n = None then None else q_tail q), q_size := q_size q - 1\<rparr>"
  have "dequeue q = Inr (x, ?q')"
    using hd n dn dec by (simp add: dequeue_def queue_isEmpty_def)
  moreover have "queue_inv ?q' cells"
    using assms rest notin nil by (auto simp: queue_inv_def chain_store_update)
  ultimately show ?thesis by blast
qed

lemma run_queue_refines:
  "queue_inv q cells \<Longrightarrow> fits_int ops (length cells) \<Longrightarrow>
   map_sum id (\<lambda>(outs, q'). (outs, queue_size q')) (run_queue ops q) =
     (case fifo_spec ops (map snd cells) of
        None \<Rightarrow> Inl (Runtime_error ''Queue is empty'')
      | Some outs \<Rightarrow> Inr (outs, int (length cells) + int (length (enqueued ops)) - int (dequeues ops)))"
proof (induction ops arbitrary: q cells)
  case Nil
  then show ?case by (simp add: queue_size_def queue_inv_def)
next
  case (Cons op ops)
  show ?case
  proof (cases op)
    case (Enqueue x)
    from Cons.prems(2) Enqueue have room: "int (length cells) < INT_MAX"
      and fits: "fits_int ops (length (cells @ [(q_alloc q, x)]))" by simp_all
    from enqueue_inv[OF Cons.prems(1) room, of x] obtain q' where
      e: "enqueue x q = Inr q'" and inv: "queue_inv q' (cells @ [(q_alloc q, x)])" by blast
    from Cons.IH[OF inv fits] e Enqueue show ?thesis by (simp split: option.splits)
  next
    case Dequeue
    show ?thesis
    proof (cases cells)
      case Nil
      with Cons.prems Dequeue show ?thesis by (simp add: dequeue_empty)
    next
      case (Cons c cells')
      obtain a x where c: "c = (a, x)" by (cases c)
      from dequeue_nonempty[of q a x cells'] Cons.prems(1) Cons c
      obtain q' where p: "dequeue q = Inr (x, q')" and inv: "queue_inv q' cells'" by auto
      from Cons.prems(2) Dequeue Cons have fits: "fits_int ops (length cells')" by simp
      from Cons.IH[OF inv fits] p Dequeue Cons c show ?thesis
        by (auto split: sum.splits option.splits)
    qed
  qed
qed

lemma fifo_spec_char:
  "fifo_spec ops held =
     (if underflows ops (length held) then None
      else Some (take (dequeues ops) (held @ enqueued ops)))"
proof (induction ops held rule: fifo_spec.induct)
  case (1 held)
  then show ?case by simp
next
  case (2 x ops held)
  then show ?case by simp
next
  case (3 ops)
  then show ?case by simp
next
  case (4 ops y held)
  then show ?case by simp
qed

lemma no_underflow_dequeues:
  "\<not> underflows ops n \<Longrightarrow> dequeues ops \<le> n + length (enqueued ops)"
  by (induction ops n rule: underflows.induct) auto

text \<open>
  A run whose enqueues, added to the items already held, do not exceed \<^verbatim>\<open>INT_MAX\<close>
  keeps the counter within \<^verbatim>\<open>int\<close>.
\<close>

lemma fits_int_few_enqueues:
  "int n + int (length (enqueued ops)) \<le> INT_MAX \<Longrightarrow> fits_int ops n"
  by (induction ops n rule: fits_int.induct) auto

text \<open>
  C6. Strict FIFO and the size. For every sequence of enqueues and dequeues on a queue
  made by the constructor during which the queue never holds more than \<^verbatim>\<open>INT_MAX\<close>
  (\<open>2^31 - 1\<close>) items, so that the \<^verbatim>\<open>int\<close> counter \<^verbatim>\<open>_size\<close> does not overflow: if no
  dequeue meets the empty queue, the dequeues return, in order, the first \<open>j\<close> of the
  enqueued items (\<open>j\<close> the number of dequeues), and \<^verbatim>\<open>size()\<close> is then \<open>k - j\<close> for \<open>k\<close>
  enqueues; otherwise the run ends with the exception of the dequeue that met the empty
  queue.
\<close>

theorem Queue_fifo:
  assumes "fits_int ops 0"
  shows "map_sum id (\<lambda>(outs, q). (outs, queue_size q)) (run_queue ops Queue) =
     (if underflows ops 0 then Inl (Runtime_error ''Queue is empty'')
      else Inr (take (dequeues ops) (enqueued ops),
                int (length (enqueued ops)) - int (dequeues ops)))"
  using run_queue_refines[OF queue_inv_Queue, of ops] assms
  by (simp add: fifo_spec_char)

theorem Queue_fifo_witness:
  "fits_int [Enqueue (1::nat), Enqueue 2, Dequeue, Enqueue 3, Dequeue] 0 \<and>
   map_sum id (\<lambda>(outs, q). (outs, queue_size q))
     (run_queue [Enqueue (1::nat), Enqueue 2, Dequeue, Enqueue 3, Dequeue] Queue) = Inr ([1, 2], 1) \<and>
   fits_int [Enqueue (1::nat), Dequeue, Dequeue, Enqueue 2] 0 \<and>
   map_sum id (\<lambda>(outs, q). (outs, queue_size q))
     (run_queue [Enqueue (1::nat), Dequeue, Dequeue, Enqueue 2] Queue) =
     Inl (Runtime_error ''Queue is empty'')"
proof -
  have f: "fits_int [Enqueue (1::nat), Enqueue 2, Dequeue, Enqueue 3, Dequeue] 0"
    "fits_int [Enqueue (1::nat), Dequeue, Dequeue, Enqueue 2] 0"
    by (simp_all add: INT_MAX_def)
  from Queue_fifo[OF f(1)] Queue_fifo[OF f(2)] f show ?thesis by simp
qed

subsection \<open>Removing from an empty container\<close>

text \<open>
  C8, as the sources have it. The templated containers signal the empty container:
  \<^verbatim>\<open>Queue<T>::dequeue\<close>, \<^verbatim>\<open>Stack<T>::pop\<close> and \<^verbatim>\<open>Stack<T>::peek\<close> throw
  \<^verbatim>\<open>std::runtime_error\<close> and return no value. The non-template \<^verbatim>\<open>Queue::dequeue\<close> of
  \<^verbatim>\<open>Queue.cpp\<close> does not: on an empty queue it returns \<^verbatim>\<open>nullptr\<close> and leaves the
  queue as it was.
\<close>

theorem empty_container_removal:
  "(queue_isEmpty q \<longrightarrow> dequeue q = Inl (Runtime_error ''Queue is empty'')) \<and>
   (stack_isEmpty s \<longrightarrow>
      pop s = Inl (Runtime_error ''Stack is empty'') \<and>
      peek s = Inl (Runtime_error ''Stack is empty'')) \<and>
   (queue_isEmpty tq \<longrightarrow> Queue_dequeue tq = Inr (None, tq))"
  by (simp add: dequeue_def pop_def peek_def Queue_dequeue_def)

theorem empty_container_removal_witness:
  "queue_isEmpty (Queue :: nat queue) \<and>
   dequeue (Queue :: nat queue) = Inl (Runtime_error ''Queue is empty'') \<and>
   stack_isEmpty (Stack :: nat stack) \<and>
   pop (Stack :: nat stack) = Inl (Runtime_error ''Stack is empty'') \<and>
   peek (Stack :: nat stack) = Inl (Runtime_error ''Stack is empty'') \<and>
   Queue_dequeue (Queue :: nat option queue) = Inr (None, Queue)"
proof -
  have e: "queue_isEmpty (Queue :: nat queue)" "stack_isEmpty (Stack :: nat stack)"
    "queue_isEmpty (Queue :: nat option queue)"
    by (simp_all add: queue_isEmpty_def stack_isEmpty_def Queue_def Stack_def)
  with empty_container_removal[of "Queue :: nat queue" "Stack :: nat stack" "Queue :: nat option queue"]
  show ?thesis by simp
qed

text \<open>
  The claim as the specification words it fails on \<^verbatim>\<open>Queue.cpp\<close>: the empty
  queue of task pointers gives back \<^verbatim>\<open>nullptr\<close>, a value, and no exception.
\<close>

theorem Queue_dequeue_empty_returns_nullptr:
  "queue_isEmpty (Queue :: nat option queue) \<and>
   Queue_dequeue (Queue :: nat option queue) = Inr (None, Queue) \<and>
   Queue_dequeue (Queue :: nat option queue) \<noteq> Inl (Runtime_error ''Queue is empty'')"
  by (simp add: Queue_dequeue_def queue_isEmpty_def Queue_def)

section \<open>Verification of the scheduler's container\<close>

lemma least_key_le: "least_key m es \<le> m"
proof (induction es arbitrary: m)
  case Nil
  then show ?case by simp
next
  case (Cons a es)
  have "least_key (min m (fst a)) es \<le> min m (fst a)" by (rule Cons.IH)
  then show ?case by simp
qed

lemma least_key_lower: "e \<in> set es \<Longrightarrow> least_key m es \<le> fst e"
proof (induction es arbitrary: m)
  case Nil
  then show ?case by simp
next
  case (Cons a es)
  show ?case
  proof (cases "e = a")
    case True
    have "least_key (min m (fst a)) es \<le> min m (fst a)" by (rule least_key_le)
    with True show ?thesis by simp
  next
    case False
    with Cons show ?thesis by simp
  qed
qed

lemma least_key_attained: "least_key m es = m \<or> least_key m es \<in> fst ` set es"
proof (induction es arbitrary: m)
  case Nil
  then show ?case by simp
next
  case (Cons a es)
  from Cons.IH[of "min m (fst a)"] show ?case
    by (auto simp: min_def split: if_splits)
qed

lemma take_first_Some:
  "k \<in> fst ` set es \<Longrightarrow>
   \<exists>before found after. take_first k es = Some (found, before @ after) \<and>
      es = before @ found # after \<and> fst found = k \<and> k \<notin> fst ` set before"
proof (induction es)
  case Nil
  then show ?case by simp
next
  case (Cons e es)
  show ?case
  proof (cases "fst e = k")
    case True
    then have "take_first k (e # es) = Some (e, [] @ es) \<and> e # es = [] @ e # es \<and> fst e = k \<and>
        k \<notin> fst ` set []"
      by simp
    then show ?thesis by blast
  next
    case False
    with Cons.prems have "k \<in> fst ` set es" by auto
    from Cons.IH[OF this] obtain before found after where
      tf: "take_first k es = Some (found, before @ after)" and es: "es = before @ found # after"
      and k: "fst found = k" and nb: "k \<notin> fst ` set before" by blast
    have "take_first k (e # es) = Some (found, (e # before) @ after) \<and>
          e # es = (e # before) @ found # after \<and> fst found = k \<and> k \<notin> fst ` set (e # before)"
      using False tf es k nb by auto
    then show ?thesis by blast
  qed
qed

lemma extract_min_nonempty:
  assumes "pq \<noteq> []"
  shows "\<exists>before found after. extract_min pq = Inr (found, before @ after) \<and>
      pq = before @ found # after \<and> fst found \<notin> fst ` set before \<and>
      (\<forall>e \<in> set pq. fst found \<le> fst e)"
proof -
  from assms obtain e es where pq: "pq = e # es" by (cases pq) auto
  let ?k = "least_key (fst e) es"
  have "?k \<in> fst ` set pq"
    using least_key_attained[of "fst e" es] pq by auto
  from take_first_Some[OF this] obtain before found after where
    tf: "take_first ?k pq = Some (found, before @ after)" and split: "pq = before @ found # after"
    and k: "fst found = ?k" and nb: "?k \<notin> fst ` set before" by blast
  have low: "\<forall>x \<in> set pq. ?k \<le> fst x"
    using least_key_lower[of _ es "fst e"] least_key_le[of "fst e" es] pq by auto
  have "extract_min pq = Inr (found, before @ after)"
    using tf pq by (simp add: extract_min_def del: take_first.simps)
  moreover have "fst found \<notin> fst ` set before" using k nb by simp
  moreover have "\<forall>x \<in> set pq. fst found \<le> fst x" using k low by simp
  ultimately show ?thesis using split by blast
qed

lemma drain_stable_sorted:
  "sorted (map fst (drain pq)) \<and> mset (drain pq) = mset pq \<and>
   (\<forall>k. filter (\<lambda>e. fst e = k) (drain pq) = filter (\<lambda>e. fst e = k) pq)"
proof (induction pq rule: length_induct)
  case (1 pq)
  show ?case
  proof (cases "pq = []")
    case True
    have "drain [] = ([] :: (int \<times> 'a) list)"
      by (subst drain.simps) (simp add: pq_isEmpty_def)
    with True show ?thesis by simp
  next
    case False
    from extract_min_nonempty[OF False] obtain before found after where
      ex: "extract_min pq = Inr (found, before @ after)" and split: "pq = before @ found # after"
      and nb: "fst found \<notin> fst ` set before" and low: "\<forall>e \<in> set pq. fst found \<le> fst e"
      by blast
    have dr: "drain pq = found # drain (before @ after)"
      using False ex by (subst drain.simps) (simp add: pq_isEmpty_def)
    have "length (before @ after) < length pq" using split by simp
    with 1 have IH: "sorted (map fst (drain (before @ after)))"
      "mset (drain (before @ after)) = mset (before @ after)"
      "\<And>k. filter (\<lambda>e. fst e = k) (drain (before @ after)) = filter (\<lambda>e. fst e = k) (before @ after)"
      by blast+
    have set_eq: "set (drain (before @ after)) = set (before @ after)"
      using IH(2) by (metis set_mset_mset)
    have low': "\<forall>e \<in> set (drain (before @ after)). fst found \<le> fst e"
      using low split set_eq by auto
    have s: "sorted (map fst (drain pq))"
      unfolding dr using IH(1) low' by simp
    have "mset (found # drain (before @ after)) = mset (before @ found # after)"
      using IH(2) by simp
    then have m: "mset (drain pq) = mset pq"
      unfolding dr using split by simp
    have f: "filter (\<lambda>e. fst e = k) (drain pq) = filter (\<lambda>e. fst e = k) pq" for k
    proof (cases "fst found = k")
      case True
      with nb have "filter (\<lambda>e. fst e = k) before = []"
        by (force simp: filter_empty_conv image_iff)
      with True IH(3)[of k]
      have "filter (\<lambda>e. fst e = k) (found # drain (before @ after)) =
            filter (\<lambda>e. fst e = k) (before @ found # after)" by simp
      then show ?thesis unfolding dr using split by simp
    next
      case False
      with IH(3)[of k]
      have "filter (\<lambda>e. fst e = k) (found # drain (before @ after)) =
            filter (\<lambda>e. fst e = k) (before @ found # after)" by simp
      then show ?thesis unfolding dr using split by simp
    qed
    from s m f show ?thesis by blast
  qed
qed

lemma insert_all_append: "insert_all entries pq = pq @ entries"
  unfolding insert_all_def
  by (induction entries arbitrary: pq) (auto simp: pq_insert_def)

text \<open>
  C4. Whatever is inserted into the scheduler's container, in whatever order, repeated
  \<^verbatim>\<open>extractMin\<close> until it is empty yields every inserted entry once, in
  non-decreasing order of the priority keys, and the entries of one priority key come
  out in the order in which they were inserted.
\<close>

theorem PriorityScheduler_stable_order:
  "sorted (map fst (drain (insert_all entries PriorityQueue))) \<and>
   mset (drain (insert_all entries PriorityQueue)) = mset entries \<and>
   (\<forall>k. filter (\<lambda>e. fst e = k) (drain (insert_all entries PriorityQueue)) =
        filter (\<lambda>e. fst e = k) entries)"
  using drain_stable_sorted[of "insert_all entries PriorityQueue"]
  by (simp add: insert_all_append PriorityQueue_def)

theorem PriorityScheduler_stable_order_witness:
  "drain (insert_all [(1, ''a''), (2, ''b''), (4, ''c''), (5, ''d''), (1, ''e'')] PriorityQueue) =
     [(1, ''a''), (1, ''e''), (2, ''b''), (4, ''c''), (5, ''d'')] \<and>
   sorted (map fst (drain (insert_all [(1, ''a''), (2, ''b''), (4, ''c''), (5, ''d''), (1, ''e'')] PriorityQueue)))"
proof -
  have d: "drain (insert_all [(1, ''a''), (2, ''b''), (4, ''c''), (5, ''d''), (1, ''e'')] PriorityQueue) =
     [(1, ''a''), (1, ''e''), (2, ''b''), (4, ''c''), (5, ''d'')]"
    by (simp add: insert_all_def pq_insert_def PriorityQueue_def pq_isEmpty_def extract_min_def drain.simps)
  with PriorityScheduler_stable_order[of "[(1, ''a''), (2, ''b''), (4, ''c''), (5, ''d''), (1, ''e'')]"]
  show ?thesis by simp
qed

section \<open>Reading back a printed identifier\<close>

text \<open>
  \<^verbatim>\<open>std::stoi\<close> reads back what \<^verbatim>\<open>std::to_string\<close> printed, for every non-negative
  \<^verbatim>\<open>int\<close>: the undo record's \<^verbatim>\<open>task_id\<close> field names the task it was made for.
\<close>

lemma digit_value_digit_char: "d < 10 \<Longrightarrow> digit_value (digit_char d) = Some (int d)"
proof -
  assume "d < 10"
  then have "d \<in> {0, 1, 2, 3, 4, 5, 6, 7, 8, 9}" by auto
  then show ?thesis
    by (auto simp: digit_value_def digit_char_def)
qed

lemma digit_not_space_or_sign:
  "digit_value ch = Some v \<Longrightarrow> \<not> isspace ch \<and> ch \<noteq> CHR ''-'' \<and> ch \<noteq> CHR ''+''"
  by (auto simp: digit_value_def isspace_def split: if_splits)

lemma digits_value_append:
  "\<forall>ch \<in> set xs. digit_value ch \<noteq> None \<Longrightarrow>
   digits_value acc (xs @ ys) = digits_value (digits_value acc xs) ys"
  by (induction xs arbitrary: acc) (auto split: option.splits)

lemma digits_all_digits: "\<forall>ch \<in> set (digits k). digit_value ch \<noteq> None"
proof (induction k rule: digits.induct)
  case (1 n)
  show ?case
  proof (cases "n < 10")
    case True
    then show ?thesis
      by (subst digits.simps) (simp add: digit_value_digit_char)
  next
    case False
    have "n mod 10 < 10" by simp
    with 1[OF False] False show ?thesis
      by (subst digits.simps) (simp add: digit_value_digit_char)
  qed
qed

lemma digits_nonempty: "digits k \<noteq> []"
  by (subst digits.simps) simp

lemma digits_value_digits: "digits_value acc (digits k) = acc * 10 ^ length (digits k) + int k"
proof (induction k arbitrary: acc rule: digits.induct)
  case (1 n)
  show ?case
  proof (cases "n < 10")
    case True
    then show ?thesis
      by (subst (1 2) digits.simps) (simp add: digit_value_digit_char)
  next
    case False
    have m: "n mod 10 < 10" by simp
    have "digits_value acc (digits n) =
          digits_value (digits_value acc (digits (n div 10))) [digit_char (n mod 10)]"
      using False digits_all_digits[of "n div 10"]
      by (subst digits.simps) (simp add: digits_value_append)
    also have "\<dots> = 10 * (acc * 10 ^ length (digits (n div 10)) + int (n div 10)) + int (n mod 10)"
      using 1[OF False, of acc] m by (simp add: digit_value_digit_char)
    also have "\<dots> = acc * 10 ^ length (digits n) + int n"
    proof -
      have "length (digits n) = Suc (length (digits (n div 10)))"
        using False by (subst digits.simps) simp
      moreover have "int n = 10 * int (n div 10) + int (n mod 10)"
        by (metis mult_div_mod_eq of_nat_add of_nat_mult of_nat_numeral)
      ultimately show ?thesis by (simp add: algebra_simps)
    qed
    finally show ?thesis .
  qed
qed

lemma stoi_to_string:
  assumes "0 \<le> i" and "i \<le> 2147483647"
  shows "stoi (to_string i) = Inr i"
proof -
  obtain ch rest where d: "digits (nat i) = ch # rest"
    using digits_nonempty[of "nat i"] by (cases "digits (nat i)") auto
  have "digit_value ch \<noteq> None"
    using digits_all_digits[of "nat i"] d by simp
  then obtain v where v: "digit_value ch = Some v" by auto
  note ns = digit_not_space_or_sign[OF v]
  have val: "digits_value 0 (digits (nat i)) = i"
    using assms digits_value_digits[of 0 "nat i"] by simp
  have ts: "to_string i = ch # rest"
    using assms d by (simp add: to_string_def)
  show ?thesis
    unfolding ts stoi_def
    using ns v val assms unfolding d by (simp add: Let_def)
qed

section \<open>Verification of the connector\<close>

lemmas conn_defs = server_call_def setAutoCommit_def commit_def rollback_def prepareStatement_def
  createStatement_def write_rows_def select_status_def update_status_def
  insert_task_def select_last_insert_id_def select_pending_def delete_ptr_def Let_def
lemmas body_defs = then_do_def driver_def assign_def throw_def return_of_def delete_def
lemmas createTask_defs = createTask_try_def createTask_catch_def createTask_def
lemmas getPendingTasks_defs = getPendingTasks_try_def getPendingTasks_catch_def
  getPendingTasks_def task_of_row_def
lemmas updateTaskStatus_defs = updateTaskStatus_try_def updateTaskStatus_rollback_def
  updateTaskStatus_catch_def updateTaskStatus_def

lemma find_set_status:
  "find (\<lambda>r. r_task_id r = i) (set_status s i rows) =
     map_option (\<lambda>r. r\<lparr>r_status := s\<rparr>) (find (\<lambda>r. r_task_id r = i) rows)"
  by (induction rows) (auto simp: set_status_def)

text \<open>The session that holds the one pending task, written out.\<close>

lemma one_pending_task_eq:
  "one_pending_task =
     \<lparr>committed = [\<lparr>r_task_id = 1, r_assignee_id = Some 1, r_title = ''Deploy to prod (C++)'',
                     r_description = ''Push v2.0'', r_status = ''pending'', r_priority = 2,
                     r_created_at = 0\<rparr>],
      working = [\<lparr>r_task_id = 1, r_assignee_id = Some 1, r_title = ''Deploy to prod (C++)'',
                   r_description = ''Push v2.0'', r_status = ''pending'', r_priority = 2,
                   r_created_at = 0\<rparr>],
      auto_commit = True, next_task_id = 2, last_insert_id = 1, clock = 0, faults = []\<rparr>"
  by (simp add: one_pending_task_def deploy_task_def Task_def new_session_def
      createTask_defs body_defs conn_defs)

subsection \<open>updateTaskStatus\<close>

text \<open>A call that reports success has made the new status durable.\<close>

lemma updateTaskStatus_success_durable:
  assumes "fst (updateTaskStatus i s c) = Inr (True, old)"
  shows "durable_status (snd (updateTaskStatus i s c)) i = Some s"
  using assms
  by (auto simp: updateTaskStatus_defs body_defs conn_defs durable_status_def find_set_status
      split: list.splits bool.splits option.splits if_splits sum.splits prod.splits)

text \<open>With no driver fault, on a session with no open transaction, the row is updated.\<close>

lemma updateTaskStatus_no_fault:
  assumes "faults c = []" and "auto_commit c" and "working c = committed c"
    and "find (\<lambda>r. r_task_id r = i) (committed c) = Some r"
  shows "updateTaskStatus i s c =
           (Inr (True, r_status r),
            c\<lparr>working := set_status s i (committed c), committed := set_status s i (committed c)\<rparr>)"
  using assms
  by (simp add: updateTaskStatus_defs body_defs conn_defs)

text \<open>
  A call that reports failure because a driver call up to the commit threw leaves the
  committed rows as they were.
\<close>

lemma updateTaskStatus_rolled_back:
  assumes "auto_commit c" and "working c = committed c"
    and "fst (updateTaskStatus i s c) = Inr (False, old)"
    and "True \<in> set (take 6 (faults c))"
  shows "committed (snd (updateTaskStatus i s c)) = committed c"
  using assms
  by (auto simp: updateTaskStatus_defs body_defs conn_defs
      split: list.splits bool.splits option.splits if_splits sum.splits prod.splits)

text \<open>
  An identifier that matches no row: on a session with no open transaction the call
  leaves the committed rows as they are, whatever the driver does, and it ends in one of
  two ways.
\<close>

lemma updateTaskStatus_missing_id_keeps_rows:
  assumes "auto_commit c" and "working c = committed c"
    and "find (\<lambda>r. r_task_id r = i) (committed c) = None"
  shows "committed (snd (updateTaskStatus i s c)) = committed c \<and>
         fst (updateTaskStatus i s c) \<in> {Inr (False, []), Inl (Runtime_error ''Task not found'')}"
  using assms
  by (auto simp: updateTaskStatus_defs body_defs conn_defs
      split: list.splits bool.splits option.splits if_splits sum.splits prod.splits)

text \<open>
  C2, where the code departs from it. For an identifier that matches no row, with the
  driver calls succeeding, \<^verbatim>\<open>updateTaskStatus\<close> does not return \<open>(false, _)\<close>: the
  \<^verbatim>\<open>std::runtime_error("Task not found")\<close> thrown in the \<^verbatim>\<open>try\<close> block is not an
  \<^verbatim>\<open>sql::SQLException\<close>, passes the handler and leaves the function. The committed
  rows are unchanged; the session is left with autocommit off and no rollback.
\<close>

theorem updateTaskStatus_not_found_escapes:
  assumes "faults c = []" and "find (\<lambda>r. r_task_id r = i) (working c) = None"
  shows "updateTaskStatus i s c = (Inl (Runtime_error ''Task not found''), c\<lparr>auto_commit := False\<rparr>)"
  using assms
  by (simp add: updateTaskStatus_defs body_defs conn_defs)

theorem updateTaskStatus_not_found_escapes_witness:
  "faults one_pending_task = [] \<and>
   find (\<lambda>r. r_task_id r = 7) (working one_pending_task) = None \<and>
   fst (updateTaskStatus 7 ''in_progress'' one_pending_task) = Inl (Runtime_error ''Task not found'') \<and>
   committed (snd (updateTaskStatus 7 ''in_progress'' one_pending_task)) = committed one_pending_task \<and>
   \<not> auto_commit (snd (updateTaskStatus 7 ''in_progress'' one_pending_task))"
proof -
  have h: "faults one_pending_task = []"
    "find (\<lambda>r. r_task_id r = 7) (working one_pending_task) = None"
    by (simp_all add: one_pending_task_eq)
  from updateTaskStatus_not_found_escapes[OF h, of "''in_progress''"] h
  show ?thesis by simp
qed

text \<open>
  C3, where the code departs from it. The row of task 1 is \<^verbatim>\<open>pending\<close>; the six
  driver calls up to and including \<^verbatim>\<open>commit\<close> succeed and the seventh,
  \<^verbatim>\<open>setAutoCommit(true)\<close>, throws. The handler then finds nothing to roll back and the call
  reports \<open>(false, pending)\<close>, while the committed status of the row is \<^verbatim>\<open>in_progress\<close>.
\<close>

theorem updateTaskStatus_reports_failure_after_commit:
  "durable_status one_pending_task 1 = Some ''pending'' \<and>
   fst (updateTaskStatus 1 ''in_progress''
          (one_pending_task\<lparr>faults := [False, False, False, False, False, False, True]\<rparr>)) =
     Inr (False, ''pending'') \<and>
   durable_status (snd (updateTaskStatus 1 ''in_progress''
          (one_pending_task\<lparr>faults := [False, False, False, False, False, False, True]\<rparr>))) 1 =
     Some ''in_progress''"
  by (simp add: one_pending_task_eq updateTaskStatus_defs body_defs conn_defs durable_status_def
      set_status_def)

subsection \<open>createTask\<close>

text \<open>
  Every call of \<^verbatim>\<open>createTask\<close> ends in one of three ways: it returns \<^verbatim>\<open>nullptr\<close> with
  the task object untouched; it returns the pointer it was passed, the object now
  carrying the generated identifier; or it deletes the prepared statement a second time.
\<close>

lemma createTask_outcomes:
  "fst (createTask t c) = Inr Null_task \<and> fst (snd (createTask t c)) = t \<or>
   fst (createTask t c) = Inr This_task \<and>
     fst (snd (createTask t c)) = t\<lparr>task_id := next_task_id c\<rparr> \<or>
   fst (createTask t c) = Inl Undefined_behaviour \<and> fst (snd (createTask t c)) = t"
  by (auto simp: createTask_defs body_defs conn_defs
      split: list.splits bool.splits option.splits if_splits sum.splits prod.splits)

text \<open>
  C10, where the code departs from it. The insert succeeds and \<^verbatim>\<open>createStatement\<close>
  throws: \<^verbatim>\<open>pstmt\<close> was deleted after \<^verbatim>\<open>execute()\<close> and not reset, so the handler's
  \<^verbatim>\<open>if (pstmt) delete pstmt\<close> deletes it again. The call does not come to
  \<^verbatim>\<open>return nullptr\<close> in defined C++. The row is stored, the task object keeps identifier 0.
\<close>

theorem createTask_double_delete:
  "createTask deploy_task (new_session\<lparr>faults := [False, False, True]\<rparr>) =
     (Inl Undefined_behaviour, deploy_task, one_pending_task)"
  by (simp add: one_pending_task_eq deploy_task_def Task_def new_session_def
      createTask_defs body_defs conn_defs)

section \<open>Verification of the TaskManager\<close>

lemmas container_defs = Queue_def queue_isEmpty_def enqueue_def dequeue_def Node_def
  Stack_def stack_isEmpty_def push_def pop_def PriorityQueue_def pq_isEmpty_def pq_insert_def
  extract_min_def increment_def decrement_def INT_MAX_def INT_MIN_def
lemmas manager_defs = cout_def TaskManager_def submit_new_task_def process_new_task_queue_def
  load_task_def load_tasks_into_scheduler_def run_task_def run_task_scheduler_def
  undo_last_action_def Task_def UndoAction_def map_at_def new_session_def
lemmas string_defs = stoi_def to_string_def digit_char_def digit_value_def isspace_def digits.simps

subsection \<open>Processing the queue of new tasks returns\<close>

text \<open>
  On a queue that is a chain of nodes from \<^verbatim>\<open>head\<close> to \<^verbatim>\<open>nullptr\<close> (as every queue
  built by the constructor and \<^verbatim>\<open>enqueue\<close> is), the loop of
  \<^verbatim>\<open>process_new_task_queue\<close> comes to an end.
\<close>

lemma process_new_task_queue_loop_returns:
  "queue_inv (new_task_queue m) cells \<Longrightarrow> \<exists>r. process_new_task_queue_loop m = Some r"
proof (induction cells arbitrary: m)
  case Nil
  then have "queue_isEmpty (new_task_queue m)"
    by (simp add: queue_inv_def queue_isEmpty_def)
  then show ?case
    by (subst process_new_task_queue_loop.simps) simp
next
  case (Cons c cells)
  obtain a x where c: "c = (a, x)" by (cases c)
  from dequeue_nonempty[of "new_task_queue m" a x cells] Cons.prems c
  obtain q' where dq: "dequeue (new_task_queue m) = Inr (x, q')" and inv: "queue_inv q' cells"
    by auto
  have ne: "\<not> queue_isEmpty (new_task_queue m)"
    using Cons.prems c by (auto simp: queue_inv_def queue_isEmpty_def)
  let ?m1 = "cout (''Processor: Saving '' @ quoted (title x) @ '' to database...'')
               (m\<lparr>new_task_queue := q'\<rparr>)"
  let ?created = "createTask x (db ?m1)"
  show ?case
  proof (cases "fst ?created")
    case (Inl e)
    then show ?thesis
      using ne dq by (subst process_new_task_queue_loop.simps) (simp add: Let_def)
  next
    case (Inr r)
    have "queue_inv (new_task_queue (?m1\<lparr>db := snd (snd ?created)\<rparr>)) cells"
      using inv by (simp add: cout_def)
    from Cons.IH[OF this] obtain res where
      "process_new_task_queue_loop (?m1\<lparr>db := snd (snd ?created)\<rparr>) = Some res" ..
    then show ?thesis
      using ne dq Inr by (subst process_new_task_queue_loop.simps) (simp add: Let_def)
  qed
qed

lemma process_new_task_queue_returns:
  "queue_inv (new_task_queue m) cells \<Longrightarrow> \<exists>r. process_new_task_queue m = Some r"
proof -
  assume "queue_inv (new_task_queue m) cells"
  then have "queue_inv (new_task_queue (cout (separator ''Processing New Task Queue'') m)) cells"
    by (simp add: cout_def)
  from process_new_task_queue_loop_returns[OF this] show ?thesis
    by (auto simp: process_new_task_queue_def)
qed

subsection \<open>Undo with nothing to undo\<close>

text \<open>
  C9. With an empty undo stack, \<^verbatim>\<open>undo_last_action\<close> returns normally, writes
  \<^verbatim>\<open>Nothing to undo.\<close> after its heading, and changes nothing else: the session (so
  every row, committed or not), the queue, the scheduler and the stack are as before, and
  no driver call is made.
\<close>

theorem undo_on_empty_stack:
  assumes "stack_isEmpty (undo_stack m)"
  shows "undo_last_action m =
           Inr (m\<lparr>console := console m @ [separator ''Undo Last Action'', ''Nothing to undo.'']\<rparr>)"
  using assms by (simp add: undo_last_action_def cout_def)

theorem undo_on_empty_stack_witness:
  "stack_isEmpty (undo_stack (TaskManager one_pending_task)) \<and>
   map_sum id (\<lambda>m. (db m, undo_stack m, last (console m)))
     (undo_last_action (TaskManager one_pending_task)) =
     Inr (one_pending_task, Stack, ''Nothing to undo.'')"
proof -
  have e: "stack_isEmpty (undo_stack (TaskManager one_pending_task))"
    by (simp add: TaskManager_def Stack_def stack_isEmpty_def)
  from undo_on_empty_stack[OF e] e show ?thesis
    by (simp add: TaskManager_def)
qed

subsection \<open>The round trip of one task\<close>

lemma find_append:
  "find P (xs @ ys) = (case find P xs of None \<Rightarrow> find P ys | Some y \<Rightarrow> Some y)"
  by (induction xs) auto

lemma set_status_other_rows:
  "\<forall>r \<in> set rows. r_task_id r \<noteq> ident \<Longrightarrow> set_status s ident rows = rows"
  by (induction rows) (simp_all add: set_status_def)

text \<open>
  C5. One task (of priority 2, or any other) is submitted to a manager whose session has
  no driver fault ahead and no open transaction, on a database that holds no pending
  task, whose next identifier \<open>n\<close> is unused and fits a C++ \<^verbatim>\<open>int\<close>. Every step of the
  run returns, and the manager passes through these states.
  After the submission the task waits in the queue and the table is as before.
  After the queue is processed the queue is empty and the table has one more row: task
  \<open>n\<close>, \<^verbatim>\<open>pending\<close>.
  After loading, the scheduler holds exactly that task, with status \<^verbatim>\<open>pending\<close> and
  identifier \<open>n\<close>.
  After the scheduler has run it is empty, the durable status of task \<open>n\<close> is
  \<^verbatim>\<open>completed\<close>, and the undo stack holds one record: \<^verbatim>\<open>update_status\<close> of task \<open>n\<close>
  with the old status \<^verbatim>\<open>pending\<close>, the status read before the update to
  \<^verbatim>\<open>in_progress\<close>.
  After the undo the durable status of task \<open>n\<close> is \<^verbatim>\<open>pending\<close> again, not
  \<^verbatim>\<open>completed\<close>, the rows of the other tasks are as they were, and the undo stack is
  empty.
\<close>

theorem single_task_round_trip:
  assumes nf: "faults c = []" and ac: "auto_commit c" and cl: "working c = committed c"
    and np: "\<forall>r \<in> set (committed c). r_status r \<noteq> ''pending''"
    and fresh: "\<forall>r \<in> set (committed c). r_task_id r \<noteq> next_task_id c"
    and lo: "0 \<le> next_task_id c" and hi: "next_task_id c \<le> 2147483647"
  shows
    "observed (\<lambda>m. (durable_statuses (db m), map_sum id fst (dequeue (new_task_queue m))))
       (single_task_submitted t d p user_id c) =
       Some (Inr (durable_statuses c, Inr (Task t d p ''pending'' 0 user_id))) \<and>
     observed (\<lambda>m. (durable_statuses (db m), queue_isEmpty (new_task_queue m)))
       (single_task_persisted t d p user_id c) =
       Some (Inr (durable_statuses c @ [(next_task_id c, ''pending'')], True)) \<and>
     observed (\<lambda>m. (durable_statuses (db m), task_scheduler m))
       (single_task_loaded t d p user_id c) =
       Some (Inr (durable_statuses c @ [(next_task_id c, ''pending'')],
                  [(p, Task t d p ''pending'' (next_task_id c) user_id)])) \<and>
     observed (\<lambda>m. (durable_statuses (db m), task_scheduler m, top_undo m))
       (single_task_executed t d p user_id c) =
       Some (Inr (durable_statuses c @ [(next_task_id c, ''completed'')], [],
                  Inr (''update_status'', to_string (next_task_id c), ''pending'', True))) \<and>
     observed (\<lambda>m. (durable_status (db m) (next_task_id c), durable_statuses (db m),
                     stack_isEmpty (undo_stack m)))
       (single_task_run t d p user_id c) =
       Some (Inr (Some ''pending'', durable_statuses c @ [(next_task_id c, ''pending'')], True))"
proof -
  have fp: "filter (\<lambda>r. r_status r = ''pending'') (committed c) = []"
    using np by (simp add: filter_empty_conv)
  have fn: "find (\<lambda>r. r_task_id r = next_task_id c) (committed c) = None"
    using fresh by (simp add: find_None_iff)
  have so: "set_status s (next_task_id c) (committed c) = committed c" for s
    using fresh by (rule set_status_other_rows)
  have ss: "set_status s i (xs @ [x]) = set_status s i xs @ set_status s i [x]" for s i xs x
    by (simp add: set_status_def)
  have ss1: "set_status s i [x] = [if r_task_id x = i then x\<lparr>r_status := s\<rparr> else x]" for s i x
    by (simp add: set_status_def)
  have rt: "stoi (to_string (next_task_id c)) = Inr (next_task_id c)"
    using lo hi by (rule stoi_to_string)
  note run = nf ac cl fp fn so ss ss1 rt find_append
       conn_defs body_defs createTask_defs getPendingTasks_defs updateTaskStatus_defs
       container_defs cout_def TaskManager_def submit_new_task_def process_new_task_queue_def
       load_task_def load_tasks_into_scheduler_def run_task_def run_task_scheduler_def
       undo_last_action_def Task_def UndoAction_def map_at_def durable_status_def
       durable_statuses_def top_undo_def observed_def next_step_def
       process_new_task_queue_loop.simps run_task_scheduler_loop.simps
  have s1: "observed (\<lambda>m. (durable_statuses (db m), map_sum id fst (dequeue (new_task_queue m))))
       (single_task_submitted t d p user_id c) =
       Some (Inr (durable_statuses c, Inr (Task t d p ''pending'' 0 user_id)))"
    by (simp add: single_task_submitted_def run)
  have s2: "observed (\<lambda>m. (durable_statuses (db m), queue_isEmpty (new_task_queue m)))
       (single_task_persisted t d p user_id c) =
       Some (Inr (durable_statuses c @ [(next_task_id c, ''pending'')], True))"
    by (simp add: single_task_persisted_def single_task_submitted_def run)
  have s3: "observed (\<lambda>m. (durable_statuses (db m), task_scheduler m))
       (single_task_loaded t d p user_id c) =
       Some (Inr (durable_statuses c @ [(next_task_id c, ''pending'')],
                  [(p, Task t d p ''pending'' (next_task_id c) user_id)]))"
    by (simp add: single_task_loaded_def single_task_persisted_def single_task_submitted_def run)
  have s4: "observed (\<lambda>m. (durable_statuses (db m), task_scheduler m, top_undo m))
       (single_task_executed t d p user_id c) =
       Some (Inr (durable_statuses c @ [(next_task_id c, ''completed'')], [],
                  Inr (''update_status'', to_string (next_task_id c), ''pending'', True)))"
    by (simp add: single_task_executed_def single_task_loaded_def single_task_persisted_def
        single_task_submitted_def run)
  have s5: "observed (\<lambda>m. (durable_status (db m) (next_task_id c), durable_statuses (db m),
                     stack_isEmpty (undo_stack m)))
       (single_task_run t d p user_id c) =
       Some (Inr (Some ''pending'', durable_statuses c @ [(next_task_id c, ''pending'')], True))"
    by (simp add: single_task_run_def single_task_executed_def single_task_loaded_def
        single_task_persisted_def single_task_submitted_def run)
  from s1 s2 s3 s4 s5 show ?thesis by blast
qed

text \<open>
  The round trip on the database in which task 1 is already \<^verbatim>\<open>completed\<close>: the new
  task is stored as task 2, is \<^verbatim>\<open>completed\<close> after the scheduler has run, with the
  record \<open>(update_status, 2, pending)\<close> on the undo stack, and ends \<^verbatim>\<open>pending\<close>; task 1
  stays \<^verbatim>\<open>completed\<close>.
\<close>

theorem single_task_round_trip_witness:
  "faults one_completed_task = [] \<and> auto_commit one_completed_task \<and>
   working one_completed_task = committed one_completed_task \<and>
   durable_statuses one_completed_task = [(1, ''completed'')] \<and>
   next_task_id one_completed_task = 2 \<and>
   observed (\<lambda>m. (durable_statuses (db m), map_sum id fst (dequeue (new_task_queue m))))
     (single_task_submitted ''Update docs (C++)'' ''Add new API endpoints'' 2 2 one_completed_task) =
     Some (Inr ([(1, ''completed'')],
                Inr (Task ''Update docs (C++)'' ''Add new API endpoints'' 2 ''pending'' 0 2))) \<and>
   observed (\<lambda>m. (durable_statuses (db m), queue_isEmpty (new_task_queue m)))
     (single_task_persisted ''Update docs (C++)'' ''Add new API endpoints'' 2 2 one_completed_task) =
     Some (Inr ([(1, ''completed''), (2, ''pending'')], True)) \<and>
   observed (\<lambda>m. (durable_statuses (db m), task_scheduler m))
     (single_task_loaded ''Update docs (C++)'' ''Add new API endpoints'' 2 2 one_completed_task) =
     Some (Inr ([(1, ''completed''), (2, ''pending'')],
                [(2, Task ''Update docs (C++)'' ''Add new API endpoints'' 2 ''pending'' 2 2)])) \<and>
   observed (\<lambda>m. (durable_statuses (db m), task_scheduler m, top_undo m))
     (single_task_executed ''Update docs (C++)'' ''Add new API endpoints'' 2 2 one_completed_task) =
     Some (Inr ([(1, ''completed''), (2, ''completed'')], [],
                Inr (''update_status'', ''2'', ''pending'', True))) \<and>
   observed (\<lambda>m. (durable_status (db m) 2, durable_statuses (db m), stack_isEmpty (undo_stack m)))
     (single_task_run ''Update docs (C++)'' ''Add new API endpoints'' 2 2 one_completed_task) =
     Some (Inr (Some ''pending'', [(1, ''completed''), (2, ''pending'')], True))"
proof -
  have eq: "one_completed_task =
     \<lparr>committed = [\<lparr>r_task_id = 1, r_assignee_id = Some 1, r_title = ''Deploy to prod (C++)'',
                     r_description = ''Push v2.0'', r_status = ''completed'', r_priority = 2,
                     r_created_at = 0\<rparr>],
      working = [\<lparr>r_task_id = 1, r_assignee_id = Some 1, r_title = ''Deploy to prod (C++)'',
                   r_description = ''Push v2.0'', r_status = ''completed'', r_priority = 2,
                   r_created_at = 0\<rparr>],
      auto_commit = True, next_task_id = 2, last_insert_id = 1, clock = 0, faults = []\<rparr>"
    by (simp add: one_completed_task_def one_pending_task_eq updateTaskStatus_defs body_defs
        conn_defs set_status_def)
  have h: "faults one_completed_task = []" "auto_commit one_completed_task"
    "working one_completed_task = committed one_completed_task"
    "\<forall>r \<in> set (committed one_completed_task). r_status r \<noteq> ''pending''"
    "\<forall>r \<in> set (committed one_completed_task). r_task_id r \<noteq> next_task_id one_completed_task"
    "0 \<le> next_task_id one_completed_task" "next_task_id one_completed_task \<le> 2147483647"
    by (simp_all add: eq)
  have n: "next_task_id one_completed_task = 2" by (simp add: eq)
  have ds: "durable_statuses one_completed_task = [(1, ''completed'')]"
    by (simp add: eq durable_statuses_def)
  have two: "to_string 2 = ''2''"
    by (simp add: string_defs)
  from single_task_round_trip[OF h, of "''Update docs (C++)''" "''Add new API endpoints''" 2 2]
  show ?thesis
    unfolding n ds two using h(1-3) by simp
qed

subsection \<open>A failed first update in the scheduler's loop\<close>

text \<open>
  The claim C1 as the specification words it fails on the code. The scheduler is loaded
  with the one pending task, and the first driver call of the update to
  \<^verbatim>\<open>in_progress\<close> throws, so that update reports \<open>(false, "")\<close>. The loop pushes no
  undo record, and it goes on to the update to \<^verbatim>\<open>completed\<close>, which succeeds: the task
  ends \<^verbatim>\<open>completed\<close>, not \<^verbatim>\<open>pending\<close>.
\<close>

theorem failed_first_update_still_completes:
  "map_sum id (\<lambda>m. fst (updateTaskStatus 1 ''in_progress'' (db m)))
     (load_tasks_into_scheduler (TaskManager (one_pending_task\<lparr>faults := [False, False, True]\<rparr>))) =
     Inr (Inr (False, [])) \<and>
   map_sum id (\<lambda>m. (stack_isEmpty (undo_stack m), durable_status (db m) 1))
     (case load_tasks_into_scheduler (TaskManager (one_pending_task\<lparr>faults := [False, False, True]\<rparr>)) of
        Inl e \<Rightarrow> Inl e
      | Inr m \<Rightarrow> run_task_scheduler m) =
     Inr (True, Some ''completed'')"
  by (simp add: one_pending_task_eq conn_defs body_defs getPendingTasks_defs updateTaskStatus_defs
       container_defs manager_defs string_defs set_status_def durable_status_def
       run_task_scheduler_loop.simps)

text \<open>
  C1, as the code has it. Let the scheduler hand out the task \<open>t\<close> and let the update of
  \<open>t\<close> to \<^verbatim>\<open>in_progress\<close> report failure. Then the turn pushes no UndoAction, and it runs
  the update to \<^verbatim>\<open>completed\<close> on the session the failed update left. If that second
  update throws, the exception leaves the loop. Otherwise the loop goes on with the
  remaining tasks from a manager whose undo stack is the one before the turn and whose
  session is the one the second update left; and if the second update reported success,
  the durable status of \<open>t\<close> is then \<^verbatim>\<open>completed\<close>.
\<close>

theorem failed_first_update_turn:
  assumes ex: "extract_min (task_scheduler m) = Inr ((p, t), rest)"
    and first: "fst (updateTaskStatus (task_id t) ''in_progress'' (db m)) = Inr (False, old)"
  shows "(\<forall>e. fst (updateTaskStatus (task_id t) ''completed''
                    (snd (updateTaskStatus (task_id t) ''in_progress'' (db m)))) = Inl e \<longrightarrow>
              run_task_scheduler_loop m = Inl e) \<and>
         (\<forall>r. fst (updateTaskStatus (task_id t) ''completed''
                    (snd (updateTaskStatus (task_id t) ''in_progress'' (db m)))) = Inr r \<longrightarrow>
              (\<exists>m'. run_task_scheduler_loop m = run_task_scheduler_loop m' \<and>
                    undo_stack m' = undo_stack m \<and>
                    task_scheduler m' = rest \<and>
                    db m' = snd (updateTaskStatus (task_id t) ''completed''
                                  (snd (updateTaskStatus (task_id t) ''in_progress'' (db m)))) \<and>
                    (fst r \<longrightarrow> durable_status (db m') (task_id t) = Some ''completed'')))"
proof (intro conjI allI impI)
  have ne: "\<not> pq_isEmpty (task_scheduler m)"
    using ex by (auto simp: pq_isEmpty_def extract_min_def)
  have loop: "run_task_scheduler_loop m =
      (case run_task (p, t) (m\<lparr>task_scheduler := rest\<rparr>) of
         Inl e \<Rightarrow> Inl e
       | Inr m' \<Rightarrow> run_task_scheduler_loop m')"
    using ne ex by (subst run_task_scheduler_loop.simps) simp
  {
    fix e
    assume "fst (updateTaskStatus (task_id t) ''completed''
                  (snd (updateTaskStatus (task_id t) ''in_progress'' (db m)))) = Inl e"
    with first have "run_task (p, t) (m\<lparr>task_scheduler := rest\<rparr>) = Inl e"
      by (simp add: run_task_def Let_def cout_def)
    then show "run_task_scheduler_loop m = Inl e"
      by (simp add: loop)
  }
  {
    fix r
    assume r: "fst (updateTaskStatus (task_id t) ''completed''
                  (snd (updateTaskStatus (task_id t) ''in_progress'' (db m)))) = Inr r"
    let ?c2 = "snd (updateTaskStatus (task_id t) ''completed''
                  (snd (updateTaskStatus (task_id t) ''in_progress'' (db m))))"
    have d: "fst r \<longrightarrow> durable_status ?c2 (task_id t) = Some ''completed''"
      using updateTaskStatus_success_durable[of "task_id t" "''completed''"
          "snd (updateTaskStatus (task_id t) ''in_progress'' (db m))" "snd r"] r
      by (cases r) auto
    from first r d
    have "\<exists>m'. run_task (p, t) (m\<lparr>task_scheduler := rest\<rparr>) = Inr m' \<and>
            undo_stack m' = undo_stack m \<and> task_scheduler m' = rest \<and> db m' = ?c2 \<and>
            (fst r \<longrightarrow> durable_status (db m') (task_id t) = Some ''completed'')"
      by (simp add: run_task_def Let_def cout_def)
    then show "\<exists>m'. run_task_scheduler_loop m = run_task_scheduler_loop m' \<and>
            undo_stack m' = undo_stack m \<and> task_scheduler m' = rest \<and> db m' = ?c2 \<and>
            (fst r \<longrightarrow> durable_status (db m') (task_id t) = Some ''completed'')"
      by (auto simp: loop)
  }
qed

theorem failed_first_update_turn_witness:
  "extract_min (task_scheduler (load_task (deploy_task\<lparr>task_id := 1\<rparr>)
       (TaskManager (one_pending_task\<lparr>faults := [True]\<rparr>)))) =
     Inr ((2, deploy_task\<lparr>task_id := 1\<rparr>), []) \<and>
   fst (updateTaskStatus 1 ''in_progress'' (one_pending_task\<lparr>faults := [True]\<rparr>)) = Inr (False, []) \<and>
   map_sum id (\<lambda>m. (stack_isEmpty (undo_stack m), durable_status (db m) 1))
     (run_task_scheduler_loop (load_task (deploy_task\<lparr>task_id := 1\<rparr>)
        (TaskManager (one_pending_task\<lparr>faults := [True]\<rparr>)))) =
     Inr (True, Some ''completed'')"
proof -
  let ?t = "deploy_task\<lparr>task_id := 1\<rparr>"
  let ?m = "load_task ?t (TaskManager (one_pending_task\<lparr>faults := [True]\<rparr>))"
  have tid: "task_id ?t = 1" by simp
  have dbm: "db ?m = one_pending_task\<lparr>faults := [True]\<rparr>"
    by (simp add: load_task_def cout_def TaskManager_def)
  have ex: "extract_min (task_scheduler ?m) = Inr ((2, ?t), [])"
    by (simp add: load_task_def cout_def TaskManager_def deploy_task_def Task_def
        PriorityQueue_def pq_insert_def extract_min_def)
  have first: "fst (updateTaskStatus (task_id ?t) ''in_progress'' (db ?m)) = Inr (False, [])"
    unfolding dbm tid
    by (simp add: one_pending_task_eq updateTaskStatus_defs body_defs conn_defs)
  have second: "fst (updateTaskStatus (task_id ?t) ''completed''
                  (snd (updateTaskStatus (task_id ?t) ''in_progress'' (db ?m)))) =
                Inr (True, ''pending'')"
    unfolding dbm tid
    by (simp add: one_pending_task_eq updateTaskStatus_defs body_defs conn_defs set_status_def)
  from failed_first_update_turn[OF ex first] second
  obtain m' where loop: "run_task_scheduler_loop ?m = run_task_scheduler_loop m'"
    and st: "undo_stack m' = undo_stack ?m" and sch: "task_scheduler m' = []"
    and dur: "durable_status (db m') (task_id ?t) = Some ''completed''"
    by auto
  have "run_task_scheduler_loop m' = Inr m'"
    using sch by (subst run_task_scheduler_loop.simps) (simp add: pq_isEmpty_def)
  moreover have "stack_isEmpty (undo_stack ?m)"
    by (simp add: load_task_def cout_def TaskManager_def Stack_def stack_isEmpty_def)
  ultimately show ?thesis
    using loop st dur ex first unfolding dbm tid by simp
qed

end
